theory Spec2Isabelle
  imports Complex_Main "HOL-Library.Char_ord" "HOL-Library.List_Lexorder"
begin

section \<open>The JavaScript Date object\<close>

text \<open>
  The component computes with \<open>Date\<close> objects. Their arithmetic is modelled from the
  ECMAScript specification (section "Date Objects"): a time value is a number of
  milliseconds since 1970-01-01T00:00:00Z, here an \<open>int\<close>; an invalid date (NaN) is
  \<open>None\<close> where the program can meet one. Days are numbered from 1970-01-01, months
  from 0, and the weekday 0 is Sunday. The range limit of time values (100 000 000
  days either side of 1970) is not modelled.
\<close>

definition msPerDay :: int where
  "msPerDay = 86400000"

definition msPerHour :: int where
  "msPerHour = 3600000"

definition DaysInYear :: "int \<Rightarrow> int" where
  "DaysInYear y =
     (if y mod 4 \<noteq> 0 then 365
      else if y mod 100 \<noteq> 0 then 366
      else if y mod 400 \<noteq> 0 then 365
      else 366)"

definition DayFromYear :: "int \<Rightarrow> int" where
  "DayFromYear y =
     365 * (y - 1970) + (y - 1969) div 4 - (y - 1901) div 100 + (y - 1601) div 400"

definition Day :: "int \<Rightarrow> int" where
  "Day t = t div msPerDay"

text \<open>
  \<open>YearFromTime\<close> is the largest year whose first day is not after the given day. It is
  computed by a search upwards from a year that is certainly not too late; the two
  lemmas before it give the termination of the search.
\<close>

lemma div_succ:
  fixes a k :: int
  assumes "0 < k"
  shows "(a + 1) div k = a div k + (if (a + 1) mod k = 0 then 1 else 0)"
proof (cases "a mod k + 1 = k")
  case True
  have "a + 1 = k * (a div k + 1) + 0"
    using True by (simp add: algebra_simps) (metis add.commute add.assoc mult_div_mod_eq)
  then have "(a + 1) div k = a div k + 1" "(a + 1) mod k = 0"
    using assms by (metis int_div_pos_eq order_refl, metis int_mod_pos_eq order_refl)
  then show ?thesis by simp
next
  case False
  have r: "0 \<le> a mod k + 1" "a mod k + 1 < k"
    using assms False pos_mod_bound [of k a] pos_mod_sign [of k a] by linarith+
  have eq: "a + 1 = k * (a div k) + (a mod k + 1)"
    by simp
  have "(a + 1) div k = a div k"
    using int_div_pos_eq [OF eq r] .
  moreover have "(a + 1) mod k = a mod k + 1"
    using int_mod_pos_eq [OF eq r] .
  moreover have "a mod k + 1 \<noteq> 0"
    using pos_mod_sign [of k a] assms by linarith
  ultimately show ?thesis by simp
qed

lemma DayFromYear_step: "DayFromYear (y + 1) = DayFromYear y + DaysInYear y"
proof -
  have a: "(y - 1968) div 4 = (y - 1969) div 4 + (if y mod 4 = 0 then 1 else 0)"
  proof -
    have "(y - 1968) mod 4 = y mod 4"
      using mod_diff_right_eq [of y 1968 4] by simp
    then show ?thesis
      using div_succ [of 4 "y - 1969"] by simp
  qed
  have b: "(y - 1900) div 100 = (y - 1901) div 100 + (if y mod 100 = 0 then 1 else 0)"
  proof -
    have "(y - 1900) mod 100 = y mod 100"
      using mod_diff_right_eq [of y 1900 100] by simp
    then show ?thesis
      using div_succ [of 100 "y - 1901"] by simp
  qed
  have c: "(y - 1600) div 400 = (y - 1601) div 400 + (if y mod 400 = 0 then 1 else 0)"
  proof -
    have "(y - 1600) mod 400 = y mod 400"
      using mod_diff_right_eq [of y 1600 400] by simp
    then show ?thesis
      using div_succ [of 400 "y - 1601"] by simp
  qed
  have "(4::int) dvd 100" "(100::int) dvd 400"
    by simp_all
  then have d1: "y mod 100 = 0 \<Longrightarrow> y mod 4 = 0" and d2: "y mod 400 = 0 \<Longrightarrow> y mod 100 = 0"
    using dvd_trans [of 4 100 y] dvd_trans [of 100 400 y] by (simp_all add: mod_eq_0_iff_dvd)
  show ?thesis
    unfolding DayFromYear_def DaysInYear_def
    using d1 d2 by (simp add: a b c)
qed

function year_search :: "int \<Rightarrow> int \<Rightarrow> int" where
  "year_search y d = (if DayFromYear (y + 1) \<le> d then year_search (y + 1) d else y)"
  by pat_completeness auto
termination
proof (relation "measure (\<lambda>(y, d). nat (d - DayFromYear y))")
  show "wf (measure (\<lambda>(y, d). nat (d - DayFromYear y)))"
    by simp
next
  fix y d :: int
  assume le: "DayFromYear (y + 1) \<le> d"
  have "DayFromYear y < DayFromYear (y + 1)"
    by (simp add: DayFromYear_step DaysInYear_def)
  with le show "((y + 1, d), (y, d)) \<in> measure (\<lambda>(y, d). nat (d - DayFromYear y))"
    by simp
qed

declare year_search.simps [simp del]

definition YearFromDay :: "int \<Rightarrow> int" where
  "YearFromDay d = year_search (1970 + (if 0 \<le> d then d div 366 else d div 365)) d"

text \<open>
  \<open>MonthFromTime\<close> and \<open>DateFromTime\<close> follow the tables of the specification;
  \<open>MakeDay\<close> takes any integer month and day of month, carrying months over into
  years, as \<open>Date.UTC\<close> does. \<open>DaysInMonth\<close> is the length of month \<open>m\<close> (0 to 11)
  of year \<open>y\<close>.
\<close>

definition InLeapYear :: "int \<Rightarrow> int" where
  "InLeapYear y = (if DaysInYear y = 366 then 1 else 0)"

definition DayWithinYear :: "int \<Rightarrow> int" where
  "DayWithinYear d = d - DayFromYear (YearFromDay d)"

definition MonthFromDay :: "int \<Rightarrow> int" where
  "MonthFromDay d =
     (let w = DayWithinYear d; l = InLeapYear (YearFromDay d) in
      if w < 31 then 0
      else if w < 59 + l then 1
      else if w < 90 + l then 2
      else if w < 120 + l then 3
      else if w < 151 + l then 4
      else if w < 181 + l then 5
      else if w < 212 + l then 6
      else if w < 243 + l then 7
      else if w < 273 + l then 8
      else if w < 304 + l then 9
      else if w < 334 + l then 10
      else 11)"

definition DateFromDay :: "int \<Rightarrow> int" where
  "DateFromDay d =
     (let w = DayWithinYear d; l = InLeapYear (YearFromDay d); m = MonthFromDay d in
      if m = 0 then w + 1
      else if m = 1 then w - 30
      else if m = 2 then w - 58 - l
      else if m = 3 then w - 89 - l
      else if m = 4 then w - 119 - l
      else if m = 5 then w - 150 - l
      else if m = 6 then w - 180 - l
      else if m = 7 then w - 211 - l
      else if m = 8 then w - 242 - l
      else if m = 9 then w - 272 - l
      else if m = 10 then w - 303 - l
      else w - 333 - l)"

definition WeekDay :: "int \<Rightarrow> int" where
  "WeekDay d = (d + 4) mod 7"

definition DayOfMonthStart :: "int \<Rightarrow> int \<Rightarrow> int" where
  "DayOfMonthStart y m =
     DayFromYear y + [0, 31, 59, 90, 120, 151, 181, 212, 243, 273, 304, 334] ! nat m
       + (if 2 \<le> m then InLeapYear y else 0)"

definition MakeDay :: "int \<Rightarrow> int \<Rightarrow> int \<Rightarrow> int" where
  "MakeDay year month dt =
     (let ym = year + month div 12; mn = month mod 12
      in DayOfMonthStart ym mn + dt - 1)"

definition DaysInMonth :: "int \<Rightarrow> int \<Rightarrow> int" where
  "DaysInMonth y m =
     [31, 28, 31, 30, 31, 30, 31, 31, 30, 31, 30, 31] ! nat m
       + (if m = 1 then InLeapYear y else 0)"

text \<open>
  The accessors of the component: \<open>setUTCHours\<close> with its four arguments, \<open>Date.UTC\<close>
  (which reads the years 0 to 99 as 1900 to 1999), and the local-time getters, where
  \<open>tz\<close> is the offset of local time from UTC in milliseconds, taken as constant.
  Comparisons of dates are false when either side is invalid.
\<close>

definition setUTCHours :: "int \<Rightarrow> int \<Rightarrow> int \<Rightarrow> int \<Rightarrow> int \<Rightarrow> int" where
  "setUTCHours t h mi sec ms =
     Day t * msPerDay + (h * msPerHour + mi * 60000 + sec * 1000 + ms)"

definition Date_UTC :: "int \<Rightarrow> int \<Rightarrow> int \<Rightarrow> int \<Rightarrow> int" where
  "Date_UTC year month dt hrs =
     (let yr = (if 0 \<le> year \<and> year \<le> 99 then 1900 + year else year)
      in MakeDay yr month dt * msPerDay + hrs * msPerHour)"

definition getFullYear :: "int \<Rightarrow> int \<Rightarrow> int" where
  "getFullYear tz t = YearFromDay (Day (t + tz))"

definition getMonth :: "int \<Rightarrow> int \<Rightarrow> int" where
  "getMonth tz t = MonthFromDay (Day (t + tz))"

definition getDate :: "int \<Rightarrow> int \<Rightarrow> int" where
  "getDate tz t = DateFromDay (Day (t + tz))"

definition getDay :: "int \<Rightarrow> int \<Rightarrow> int" where
  "getDay tz t = WeekDay (Day (t + tz))"

definition date_le :: "int option \<Rightarrow> int option \<Rightarrow> bool" where
  "date_le a b = (case (a, b) of (Some x, Some y) \<Rightarrow> x \<le> y | _ \<Rightarrow> False)"

definition date_lt :: "int option \<Rightarrow> int option \<Rightarrow> bool" where
  "date_lt a b = (case (a, b) of (Some x, Some y) \<Rightarrow> x < y | _ \<Rightarrow> False)"

subsection \<open>Date strings\<close>

text \<open>
  \<open>toISODate t\<close> is \<^verbatim>\<open>new Date(t).toISOString().split('T')[0]\<close>: four digits for the
  years 0 to 9999 and a sign with six digits otherwise. \<open>Date_parse\<close> is
  \<^verbatim>\<open>new Date(string)\<close> on the two forms of the ECMAScript date-time string format the
  component uses, the date-only form \<open>YYYY-MM-DD\<close> (read as UTC) and the full form
  \<open>YYYY-MM-DDTHH:mm:ss.sssZ\<close>; a field out of range gives an invalid date, and so
  does every other text, whose parsing ECMAScript leaves to the implementation.
  \<open>ymd y m d\<close> is the canonical string of a calendar date.
\<close>

definition digit :: "int \<Rightarrow> char" where
  "digit n = ''0123456789'' ! nat n"

fun pad :: "nat \<Rightarrow> int \<Rightarrow> string" where
  "pad 0 n = []"
| "pad (Suc w) n = pad w (n div 10) @ [digit (n mod 10)]"

definition digit_val :: "char \<Rightarrow> int option" where
  "digit_val c =
     (if CHR ''0'' \<le> c \<and> c \<le> CHR ''9'' then Some (int (of_char c) - 48) else None)"

fun digits_val :: "int \<Rightarrow> string \<Rightarrow> int option" where
  "digits_val acc [] = Some acc"
| "digits_val acc (c # cs) =
     (case digit_val c of None \<Rightarrow> None | Some v \<Rightarrow> digits_val (acc * 10 + v) cs)"

definition parse_digits :: "string \<Rightarrow> int option" where
  "parse_digits s = (if s = [] then None else digits_val 0 s)"

definition isoYear :: "int \<Rightarrow> string" where
  "isoYear y =
     (if 0 \<le> y \<and> y \<le> 9999 then pad 4 y
      else (if y < 0 then ''-'' else ''+'') @ pad 6 \<bar>y\<bar>)"

definition toISODate :: "int \<Rightarrow> string" where
  "toISODate t =
     (let d = Day t
      in isoYear (YearFromDay d) @ ''-'' @ pad 2 (MonthFromDay d + 1) @ ''-''
           @ pad 2 (DateFromDay d))"

definition parse_time :: "string \<Rightarrow> int option" where
  "parse_time r =
     (if r = [] then Some 0
      else if length r = 14 \<and> r ! 0 = CHR ''T'' \<and> r ! 3 = CHR '':'' \<and> r ! 6 = CHR '':''
              \<and> r ! 9 = CHR ''.'' \<and> r ! 13 = CHR ''Z''
      then (case (parse_digits (take 2 (drop 1 r)), parse_digits (take 2 (drop 4 r)),
                  parse_digits (take 2 (drop 7 r)), parse_digits (take 3 (drop 10 r))) of
              (Some h, Some mi, Some sec, Some ms) \<Rightarrow>
                if h \<le> 23 \<and> mi \<le> 59 \<and> sec \<le> 59
                then Some (h * msPerHour + mi * 60000 + sec * 1000 + ms)
                else None
            | _ \<Rightarrow> None)
      else None)"

definition Date_parse :: "string \<Rightarrow> int option" where
  "Date_parse s =
     (if 10 \<le> length s \<and> s ! 4 = CHR ''-'' \<and> s ! 7 = CHR ''-''
      then (case (parse_digits (take 4 s), parse_digits (take 2 (drop 5 s)),
                  parse_digits (take 2 (drop 8 s)), parse_time (drop 10 s)) of
              (Some y, Some m, Some d, Some ms) \<Rightarrow>
                if 1 \<le> m \<and> m \<le> 12 \<and> 1 \<le> d \<and> d \<le> DaysInMonth y (m - 1)
                then Some (MakeDay y (m - 1) d * msPerDay + ms)
                else None
            | _ \<Rightarrow> None)
      else None)"

definition ymd :: "int \<Rightarrow> int \<Rightarrow> int \<Rightarrow> string" where
  "ymd y m d = pad 4 y @ ''-'' @ pad 2 m @ ''-'' @ pad 2 d"

section \<open>The component of src/src/App.tsx\<close>

text \<open>
  A JavaScript \<open>number\<close> is modelled by a real number. The values the ledger holds
  (multiples of 0.5 up to 24, their sums and doublings) are exact in binary64, so on
  them the model and the program agree; the rounding of other binary64 operations,
  NaN and the infinities are not modelled, and where the program tests for NaN or for
  a missing argument the model has \<open>None\<close>.
\<close>

type_synonym number = real

text \<open>\<^verbatim>\<open>interface DayEntry { date: string; hours: number; }\<close>\<close>

record DayEntry =
  date :: string
  hours :: number

text \<open>
  The state the operations read and write: \<open>entries\<close>, the \<open>error\<close> banner, the
  \<open>alert\<close> (its message kept as the template and its arguments) and the selected
  \<open>dateRange\<close>. The text of the hours input, the date picker and the persistence
  effect, which stores \<open>entries\<close> after every change, are not modelled. The current
  time \<open>new Date()\<close> is the argument \<open>now\<close>.
\<close>

datatype alert =
    Logged number string
  | RemovedHours number string
  | RemovedAll string
  | CodedBetween number string string
  | NoHoursInRange

record App =
  entries :: "DayEntry list"
  error :: "string option"
  alert :: "alert option"
  dateRange :: "string option \<times> string option"

text \<open>\<open>Array.prototype.findIndex\<close>; \<open>None\<close> is the index -1.\<close>

fun findIndex :: "('a \<Rightarrow> bool) \<Rightarrow> 'a list \<Rightarrow> nat option" where
  "findIndex P [] = None"
| "findIndex P (x # xs) = (if P x then Some 0 else map_option Suc (findIndex P xs))"

text \<open>\<open>Math.round\<close>: the nearest integer, a tie going up.\<close>

definition Math_round :: "number \<Rightarrow> number" where
  "Math_round x = of_int \<lfloor>x + 1 / 2\<rfloor>"

text \<open>\<open>isValidDate\<close> (lines 58 to 73); \<open>None\<close> is an invalid date.\<close>

definition isValidDate :: "int \<Rightarrow> int option \<Rightarrow> bool" where
  "isValidDate now dt =
     (case dt of
        None \<Rightarrow> False
      | Some t \<Rightarrow>
          (let dateToCheck = Some (setUTCHours t 12 0 0 0);
               today = Some (setUTCHours now 23 59 59 999);
               startDate = Date_parse ''2025-01-01T12:00:00.000Z'';
               endDate = Date_parse ''2025-12-31T23:59:59.999Z''
           in date_le startDate dateToCheck \<and> date_le dateToCheck endDate
              \<and> date_le dateToCheck today))"

text \<open>\<open>validateAndClampHours\<close> (lines 75 to 77).\<close>

definition validateAndClampHours :: "number \<Rightarrow> number" where
  "validateAndClampHours h = min (max 0 (Math_round (h * 2) / 2)) 24"

text \<open>
  The update shared by \<open>handleSubmit\<close>, \<open>quickAdd\<close> and \<open>quickAddForDate\<close>: the first
  record of the date gets the new hours, or a record is appended.
\<close>

definition setEntryHours :: "App \<Rightarrow> string \<Rightarrow> number \<Rightarrow> App" where
  "setEntryHours s d h =
     (case findIndex (\<lambda>entry. date entry = d) (entries s) of
        Some existingEntryIndex \<Rightarrow>
          s\<lparr>entries := (entries s)
                [existingEntryIndex := (entries s ! existingEntryIndex)\<lparr>hours := h\<rparr>]\<rparr>
      | None \<Rightarrow> s\<lparr>entries := entries s @ [\<lparr>date = d, hours = h\<rparr>]\<rparr>)"

text \<open>
  \<open>handleSubmit\<close> (lines 79 to 118). \<open>hoursNum\<close> is the result of
  \<open>parseFloat(hours)\<close>, \<open>None\<close> for NaN.
\<close>

definition handleSubmit :: "int \<Rightarrow> App \<Rightarrow> string \<Rightarrow> number option \<Rightarrow> App" where
  "handleSubmit now s selectedDate hoursNum =
     (case hoursNum of
        None \<Rightarrow> s\<lparr>error := Some ''Please enter a valid number of hours''\<rparr>
      | Some h \<Rightarrow>
          (let validatedHours = validateAndClampHours h
           in if validatedHours = 0 \<and> h \<noteq> 0
              then s\<lparr>error := Some ''Hours must be between 0 and 24''\<rparr>
              else if \<not> isValidDate now (Date_parse (selectedDate @ ''T00:00:00.000Z''))
              then s\<lparr>error :=
                      Some ''Cannot add hours for future dates or dates outside 2025''\<rparr>
              else (setEntryHours s selectedDate validatedHours)
                     \<lparr>alert := Some (Logged validatedHours selectedDate)\<rparr>))"

text \<open>
  \<open>deleteEntry(date, hoursToDelete?)\<close> (lines 120 to 149). The optional argument is
  \<open>None\<close> when it is omitted; the test \<open>hoursToDelete && ...\<close> is false for an omitted
  argument and for 0.
\<close>

definition deleteEntry :: "App \<Rightarrow> string \<Rightarrow> number option \<Rightarrow> App" where
  "deleteEntry s d hoursToDelete =
     (case find (\<lambda>entry. date entry = d) (entries s) of
        None \<Rightarrow> s
      | Some existingEntry \<Rightarrow>
          (case hoursToDelete of
             None \<Rightarrow>
               s\<lparr>entries := filter (\<lambda>entry. date entry \<noteq> d) (entries s),
                 alert := Some (RemovedAll d)\<rparr>
           | Some amount \<Rightarrow>
               if amount \<noteq> 0 \<and> amount < hours existingEntry
               then s\<lparr>entries :=
                        map (\<lambda>entry. if date entry = d
                                      then entry\<lparr>hours := hours entry - amount\<rparr>
                                      else entry) (entries s),
                      alert := Some (RemovedHours amount d)\<rparr>
               else s\<lparr>entries := filter (\<lambda>entry. date entry \<noteq> d) (entries s),
                      alert := Some (RemovedAll d)\<rparr>))"

text \<open>\<open>entries.find(entry => entry.date === date)?.hours || 0\<close> (lines 288 to 290).\<close>

definition getHoursForDate :: "App \<Rightarrow> string \<Rightarrow> number" where
  "getHoursForDate s d =
     (case find (\<lambda>entry. date entry = d) (entries s) of
        None \<Rightarrow> 0
      | Some entry \<Rightarrow> (if hours entry = 0 then 0 else hours entry))"

text \<open>
  The body shared by \<open>quickAdd\<close> (lines 151 to 185), which adds to today's UTC date
  after checking only that today is not before 2025, and \<open>quickAddForDate\<close> (lines 187
  to 221), which checks the date with \<open>isValidDate\<close>.
\<close>

definition addToDate :: "App \<Rightarrow> string \<Rightarrow> number \<Rightarrow> App" where
  "addToDate s dateStr amount =
     (let currentHours = getHoursForDate s dateStr;
          newHours = validateAndClampHours (currentHours + amount)
      in if newHours = currentHours
         then (if amount > 0 then s\<lparr>error := Some ''Cannot exceed 24 hours in a day''\<rparr>
               else if amount < 0 then s\<lparr>error := Some ''Hours cannot be negative''\<rparr>
               else s)
         else setEntryHours s dateStr newHours)"

definition quickAdd :: "int \<Rightarrow> App \<Rightarrow> number \<Rightarrow> App" where
  "quickAdd now s amount =
     (if date_lt (Some now) (Date_parse ''2025-01-01T00:00:00.000Z'')
      then s\<lparr>error := Some ''Cannot add hours before 2025''\<rparr>
      else addToDate s (toISODate now) amount)"

definition formatDate :: "int \<Rightarrow> string" where
  "formatDate t = toISODate (setUTCHours t 12 0 0 0)"

definition quickAddForDate :: "int \<Rightarrow> App \<Rightarrow> string \<Rightarrow> number \<Rightarrow> App" where
  "quickAddForDate now s d hrs =
     (let selectedDate = map_option (\<lambda>t. setUTCHours t 12 0 0 0) (Date_parse d)
      in case (isValidDate now selectedDate, selectedDate) of
           (True, Some t) \<Rightarrow> addToDate s (formatDate t) hrs
         | _ \<Rightarrow> s\<lparr>error :=
                    Some ''Cannot add hours for future dates or dates outside 2025''\<rparr>)"

text \<open>
  \<open>validateDateRange\<close> (lines 317 to 326) and \<open>getHoursBetweenDates\<close> (lines 328 to
  344), which returns its number and may set the error. Strings are compared as
  JavaScript compares them, lexicographically by character code.
\<close>

definition validateDateRange :: "string \<Rightarrow> string \<Rightarrow> bool" where
  "validateDateRange start end' =
     (case (Date_parse start, Date_parse end') of
        (Some startDate, Some endDate) \<Rightarrow>
          (let maxRangeDays = 365;
               diffTime = \<bar>endDate - startDate\<bar>;
               diffDays = \<lceil>(of_int diffTime :: real) / of_int (1000 * 60 * 60 * 24)\<rceil>
           in diffDays \<le> maxRangeDays)
      | _ \<Rightarrow> False)"

definition getHoursBetweenDates :: "App \<Rightarrow> string \<Rightarrow> string \<Rightarrow> number \<times> App" where
  "getHoursBetweenDates s start end' =
     (if start = [] \<or> end' = [] then (0, s)
      else if \<not> validateDateRange start end'
      then (0, s\<lparr>error := Some ''Date range cannot exceed one year''\<rparr>)
      else (foldl (\<lambda>sum entry. sum + hours entry) 0
              (filter (\<lambda>entry. start \<le> date entry \<and> date entry \<le> end') (entries s)), s))"

text \<open>
  The click on a selectable day of the calendar (lines 616 to 654), for the clicked
  date string: \<open>selectDate\<close>, and in it the second click of a range,
  \<open>selectRangeEnd\<close>.
\<close>

definition selectRangeEnd :: "App \<Rightarrow> string \<Rightarrow> string \<Rightarrow> App" where
  "selectRangeEnd s start end' =
     (let (startDate, endDate) = (if end' < start then (end', start) else (start, end'))
      in if \<not> validateDateRange startDate endDate
         then s\<lparr>error := Some ''Date range cannot exceed one year'',
                dateRange := (None, None)\<rparr>
         else (let (hrs, s') =
                     getHoursBetweenDates (s\<lparr>dateRange := (Some startDate, Some endDate)\<rparr>)
                       startDate endDate
               in if hrs > 0 then s'\<lparr>alert := Some (CodedBetween hrs startDate endDate)\<rparr>
                  else s'\<lparr>alert := Some NoHoursInRange\<rparr>))"

definition selectDate :: "App \<Rightarrow> string \<Rightarrow> App" where
  "selectDate s clickedDate =
     (case dateRange s of
        (None, _) \<Rightarrow> s\<lparr>dateRange := (Some clickedDate, None)\<rparr>
      | (Some start, end') \<Rightarrow>
          if start = [] then s\<lparr>dateRange := (Some clickedDate, None)\<rparr>
          else if end' = None \<or> end' = Some [] then selectRangeEnd s start clickedDate
          else s\<lparr>dateRange := (Some clickedDate, None)\<rparr>)"

text \<open>
  \<open>getCurrentMonthHours\<close> (lines 507 to 513); \<open>currentMonth\<close> is the time value of
  the displayed month.
\<close>

definition getCurrentMonthHours :: "int \<Rightarrow> App \<Rightarrow> int \<Rightarrow> number" where
  "getCurrentMonthHours tz s currentMonth =
     (let displayedMonth = getMonth tz currentMonth
      in foldl (\<lambda>sum entry.
                  (let entryMonth = map_option (getMonth tz) (Date_parse (date entry))
                   in if entryMonth = Some displayedMonth then sum + hours entry else sum))
           0 (entries s))"

text \<open>
  \<open>getDaysInMonth\<close> (lines 228 to 268). The field \<open>date\<close> of \<open>CalendarDay\<close> is named
  \<open>day_date\<close> here, and holds a time value.
\<close>

record CalendarDay =
  day_date :: int
  isCurrentMonth :: bool

definition getDaysInMonth :: "int \<Rightarrow> int \<Rightarrow> CalendarDay list" where
  "getDaysInMonth tz dt =
     (let year = getFullYear tz dt;
          month = getMonth tz dt;
          firstDay = Date_UTC year month 1 12;
          lastDay = Date_UTC year (month + 1) 0 12;
          daysInMonth = getDate tz lastDay;
          startingDay = getDay tz firstDay;
          previousMonth = Date_UTC year month 0 12;
          daysInPreviousMonth = getDate tz previousMonth;
          days1 = map (\<lambda>i. \<lparr>day_date = Date_UTC year (month - 1) (daysInPreviousMonth - i) 12,
                              isCurrentMonth = False\<rparr>) (rev [0..startingDay - 1]);
          days2 = days1 @ map (\<lambda>i. \<lparr>day_date = Date_UTC year month i 12,
                                       isCurrentMonth = True\<rparr>) [1..daysInMonth];
          remainingDays = 42 - int (length days2)
      in days2 @ map (\<lambda>i. \<lparr>day_date = Date_UTC year (month + 1) i 12,
                              isCurrentMonth = False\<rparr>) [1..remainingDays])"

subsection \<open>Restoring the persisted snapshot\<close>

text \<open>
  \<open>JSON.parse\<close>, modelled from the JSON grammar (ECMA-404): a lexer over the
  characters, then a stack automaton over the tokens. A text that is not JSON makes
  \<open>JSON.parse\<close> throw a SyntaxError, the \<open>Inl\<close> result. Characters are bytes here, so
  a \<open>\u\<close> escape keeps the low byte of its code. \<open>initialEntries\<close> is the initializer
  of \<open>entries\<close> (lines 16 to 19), applied to the result of \<open>localStorage.getItem\<close>.
\<close>

datatype json =
    JNull
  | JBool bool
  | JNumber real
  | JString string
  | JArray "json list"
  | JObject "(string \<times> json) list"

datatype token =
    LBrace | RBrace | LBracket | RBracket | Colon | Comma
  | TString string
  | TRun string

datatype lex_state =
    LIdle
  | LStr string
  | LEsc string
  | LUni string nat nat
  | LRun string

definition is_ws :: "char \<Rightarrow> bool" where
  "is_ws c \<longleftrightarrow> c \<in> set [CHR '' '', CHR 0x09, CHR 0x0A, CHR 0x0D]"

definition is_run :: "char \<Rightarrow> bool" where
  "is_run c \<longleftrightarrow> (CHR ''0'' \<le> c \<and> c \<le> CHR ''9'') \<or> (CHR ''a'' \<le> c \<and> c \<le> CHR ''z'')
      \<or> c \<in> set [CHR ''-'', CHR ''+'', CHR ''.'', CHR ''E'']"

definition hex_val :: "char \<Rightarrow> nat option" where
  "hex_val c =
     (if CHR ''0'' \<le> c \<and> c \<le> CHR ''9'' then Some (of_char c - 48)
      else if CHR ''a'' \<le> c \<and> c \<le> CHR ''f'' then Some (of_char c - 87)
      else if CHR ''A'' \<le> c \<and> c \<le> CHR ''F'' then Some (of_char c - 55)
      else None)"

definition idle_char :: "char \<Rightarrow> (token list \<times> lex_state) option" where
  "idle_char c =
     (if is_ws c then Some ([], LIdle)
      else if c = CHR 0x22 then Some ([], LStr [])
      else if c = CHR ''{'' then Some ([LBrace], LIdle)
      else if c = CHR ''}'' then Some ([RBrace], LIdle)
      else if c = CHR ''['' then Some ([LBracket], LIdle)
      else if c = CHR '']'' then Some ([RBracket], LIdle)
      else if c = CHR '':'' then Some ([Colon], LIdle)
      else if c = CHR '','' then Some ([Comma], LIdle)
      else if is_run c then Some ([], LRun [c])
      else None)"

definition escape_char :: "char \<Rightarrow> char option" where
  "escape_char c =
     (if c = CHR 0x22 \<or> c = CHR 0x5C \<or> c = CHR ''/'' then Some c
      else if c = CHR ''b'' then Some (CHR 0x08)
      else if c = CHR ''f'' then Some (CHR 0x0C)
      else if c = CHR ''n'' then Some (CHR 0x0A)
      else if c = CHR ''r'' then Some (CHR 0x0D)
      else if c = CHR ''t'' then Some (CHR 0x09)
      else None)"

fun lex :: "lex_state \<Rightarrow> string \<Rightarrow> token list option" where
  "lex LIdle [] = Some []"
| "lex (LRun acc) [] = Some [TRun (rev acc)]"
| "lex _ [] = None"
| "lex LIdle (c # cs) =
     (case idle_char c of
        None \<Rightarrow> None
      | Some (ts, st) \<Rightarrow> map_option (\<lambda>r. ts @ r) (lex st cs))"
| "lex (LRun acc) (c # cs) =
     (if is_run c then lex (LRun (c # acc)) cs
      else (case idle_char c of
              None \<Rightarrow> None
            | Some (ts, st) \<Rightarrow> map_option (\<lambda>r. TRun (rev acc) # ts @ r) (lex st cs)))"
| "lex (LStr acc) (c # cs) =
     (if c = CHR 0x22 then map_option (\<lambda>r. TString (rev acc) # r) (lex LIdle cs)
      else if c = CHR 0x5C then lex (LEsc acc) cs
      else if (of_char c :: nat) < 32 then None
      else lex (LStr (c # acc)) cs)"
| "lex (LEsc acc) (c # cs) =
     (if c = CHR ''u'' then lex (LUni acc 0 0) cs
      else (case escape_char c of
              None \<Rightarrow> None
            | Some e \<Rightarrow> lex (LStr (e # acc)) cs))"
| "lex (LUni acc k v) (c # cs) =
     (case hex_val c of
        None \<Rightarrow> None
      | Some h \<Rightarrow>
          if k = 3 then lex (LStr (char_of (v * 16 + h) # acc)) cs
          else lex (LUni acc (Suc k) (v * 16 + h)) cs)"

definition is_digit :: "char \<Rightarrow> bool" where
  "is_digit c \<longleftrightarrow> CHR ''0'' \<le> c \<and> c \<le> CHR ''9''"

definition digits_value :: "string \<Rightarrow> int" where
  "digits_value ds = foldl (\<lambda>acc c. acc * 10 + (int (of_char c) - 48)) 0 ds"

definition number_exponent :: "string \<Rightarrow> int option" where
  "number_exponent r =
     (case r of
        [] \<Rightarrow> Some 0
      | c # r1 \<Rightarrow>
          if c = CHR ''e'' \<or> c = CHR ''E''
          then (let (sign, ds) =
                      (case r1 of
                         [] \<Rightarrow> (1, [])
                       | s # r2 \<Rightarrow> if s = CHR ''-'' then (- 1, r2)
                                     else if s = CHR ''+'' then (1, r2) else (1, r1))
                in if ds \<noteq> [] \<and> list_all is_digit ds then Some (sign * digits_value ds)
                   else None)
          else None)"

definition number_value :: "string \<Rightarrow> real option" where
  "number_value text =
     (let (sign, r0) = (case text of
                          [] \<Rightarrow> (1, [])
                        | c # r \<Rightarrow> if c = CHR ''-'' then (- 1, r) else (1, text));
          ip = takeWhile is_digit r0;
          r1 = dropWhile is_digit r0;
          (fp, r2) = (case r1 of
                        [] \<Rightarrow> (Some [], [])
                      | c # r \<Rightarrow>
                          if c = CHR ''.''
                          then (if takeWhile is_digit r = [] then None
                                else Some (takeWhile is_digit r), dropWhile is_digit r)
                          else (Some [], r1))
      in if ip = [] \<or> (1 < length ip \<and> hd ip = CHR ''0'') then None
         else (case (fp, number_exponent r2) of
                 (Some f, Some e) \<Rightarrow>
                   Some (sign * (of_int (digits_value (ip @ f)) / 10 ^ length f)
                           * (if 0 \<le> e then 10 ^ nat e else 1 / 10 ^ nat (- e)))
               | _ \<Rightarrow> None))"

definition run_value :: "string \<Rightarrow> json option" where
  "run_value text =
     (if text = ''null'' then Some JNull
      else if text = ''true'' then Some (JBool True)
      else if text = ''false'' then Some (JBool False)
      else map_option JNumber (number_value text))"

datatype frame =
    FArr "json list"
  | FObj "(string \<times> json) list" string

datatype expect =
    ExpValue bool
  | ExpAfter
  | ExpKey bool
  | ExpColon string
  | Done json

fun put_value :: "json \<Rightarrow> frame list \<Rightarrow> frame list \<times> expect" where
  "put_value v [] = ([], Done v)"
| "put_value v (FArr xs # st) = (FArr (v # xs) # st, ExpAfter)"
| "put_value v (FObj ms k # st) = (FObj ((k, v) # ms) k # st, ExpAfter)"

fun close_frame :: "token \<Rightarrow> frame list \<Rightarrow> (frame list \<times> expect) option" where
  "close_frame RBracket (FArr xs # st) = Some (put_value (JArray (rev xs)) st)"
| "close_frame RBrace (FObj ms k # st) = Some (put_value (JObject (rev ms)) st)"
| "close_frame _ _ = None"

fun open_value :: "token \<Rightarrow> frame list \<Rightarrow> (frame list \<times> expect) option" where
  "open_value LBracket st = Some (FArr [] # st, ExpValue True)"
| "open_value LBrace st = Some (FObj [] [] # st, ExpKey True)"
| "open_value (TString x) st = Some (put_value (JString x) st)"
| "open_value (TRun x) st = map_option (\<lambda>v. put_value v st) (run_value x)"
| "open_value _ st = None"

fun step :: "frame list \<times> expect \<Rightarrow> token \<Rightarrow> (frame list \<times> expect) option" where
  "step (st, ExpValue closing) t =
     (if closing \<and> t = RBracket then close_frame t st else open_value t st)"
| "step (st, ExpAfter) t =
     (if t = Comma
      then (case st of
              FArr xs # _ \<Rightarrow> Some (st, ExpValue False)
            | FObj ms k # _ \<Rightarrow> Some (st, ExpKey False)
            | [] \<Rightarrow> None)
      else close_frame t st)"
| "step (st, ExpKey closing) t =
     (case t of
        TString k \<Rightarrow> Some (st, ExpColon k)
      | RBrace \<Rightarrow> if closing then close_frame t st else None
      | _ \<Rightarrow> None)"
| "step (st, ExpColon k) t =
     (case (t, st) of
        (Colon, FObj ms _ # rest) \<Rightarrow> Some (FObj ms k # rest, ExpValue False)
      | _ \<Rightarrow> None)"
| "step (st, Done v) t = None"

fun run_tokens :: "frame list \<times> expect \<Rightarrow> token list \<Rightarrow> json option" where
  "run_tokens (st, Done v) [] = Some v"
| "run_tokens _ [] = None"
| "run_tokens s (t # ts) = (case step s t of None \<Rightarrow> None | Some s' \<Rightarrow> run_tokens s' ts)"

datatype js_exception = SyntaxError

definition JSON_parse :: "string \<Rightarrow> js_exception + json" where
  "JSON_parse text =
     (case lex LIdle text of
        None \<Rightarrow> Inl SyntaxError
      | Some ts \<Rightarrow>
          (case run_tokens ([], ExpValue False) ts of
             None \<Rightarrow> Inl SyntaxError
           | Some v \<Rightarrow> Inr v))"

definition initialEntries :: "string option \<Rightarrow> js_exception + json" where
  "initialEntries saved =
     (case saved of
        None \<Rightarrow> Inr (JArray [])
      | Some text \<Rightarrow> if text = [] then Inr (JArray []) else JSON_parse text)"

section \<open>The notions of the specification\<close>

text \<open>
  The invariants I1 to I4 of the specification, on the list of records: hours in
  \<open>[0, 24]\<close> and a multiple of 0.5; dates unique; every date a canonical date string
  of 2025; no date after today's UTC date.
\<close>

definition I1 :: "DayEntry list \<Rightarrow> bool" where
  "I1 es = (\<forall>e \<in> set es. 0 \<le> hours e \<and> hours e \<le> 24 \<and> of_int \<lfloor>hours e * 2\<rfloor> = hours e * 2)"

definition I2 :: "DayEntry list \<Rightarrow> bool" where
  "I2 es = distinct (map date es)"

definition inWindow :: "string \<Rightarrow> bool" where
  "inWindow d =
     (length d = 10 \<and>
      (case Date_parse d of
         None \<Rightarrow> False
       | Some t \<Rightarrow> date_le (Date_parse ''2025-01-01'') (Some t)
                    \<and> date_le (Some t) (Date_parse ''2025-12-31'')))"

definition I3 :: "DayEntry list \<Rightarrow> bool" where
  "I3 es = (\<forall>e \<in> set es. inWindow (date e))"

definition notAfter :: "int \<Rightarrow> string \<Rightarrow> bool" where
  "notAfter now d = (case Date_parse d of None \<Rightarrow> False | Some t \<Rightarrow> Day t \<le> Day now)"

definition I4 :: "int \<Rightarrow> DayEntry list \<Rightarrow> bool" where
  "I4 now es = (\<forall>e \<in> set es. notAfter now (date e))"

definition valid_ledger :: "int \<Rightarrow> DayEntry list \<Rightarrow> bool" where
  "valid_ledger now es \<longleftrightarrow> I1 es \<and> I2 es \<and> I3 es \<and> I4 now es"

text \<open>The hours a record may hold, and the month number written in a date string.\<close>

definition okHours :: "number \<Rightarrow> bool" where
  "okHours h \<longleftrightarrow> 0 \<le> h \<and> h \<le> 24 \<and> of_int \<lfloor>h * 2\<rfloor> = h * 2"

definition monthField :: "string \<Rightarrow> int option" where
  "monthField d = parse_digits (take 2 (drop 5 d))"

text \<open>
  A cell of the calendar grid that shows the day with number \<open>d\<close> (days since
  1970-01-01) at noon UTC, and the length of the month before month \<open>m\<close> of year
  \<open>y\<close>.
\<close>

definition cell :: "int \<Rightarrow> bool \<Rightarrow> CalendarDay" where
  "cell d b = \<lparr>day_date = d * msPerDay + 12 * msPerHour, isCurrentMonth = b\<rparr>"

definition DaysInPreviousMonth :: "int \<Rightarrow> int \<Rightarrow> int" where
  "DaysInPreviousMonth y m = (if m = 0 then 31 else DaysInMonth y (m - 1))"

section \<open>Properties of the calendar arithmetic\<close>

lemma DaysInYear_bounds: "365 \<le> DaysInYear y" "DaysInYear y \<le> 366"
  by (simp_all add: DaysInYear_def)

lemma DayFromYear_mono: "y \<le> z \<Longrightarrow> DayFromYear y \<le> DayFromYear z"
proof (induction z rule: int_ge_induct)
  case base
  show ?case by simp
next
  case (step i)
  then show ?case
    using DaysInYear_bounds(1) [of i] by (simp add: DayFromYear_step)
qed

lemma DayFromYear_strict: "y < z \<Longrightarrow> DayFromYear y < DayFromYear z"
  using DayFromYear_mono [of "y + 1" z] DaysInYear_bounds(1) [of y]
  by (simp add: DayFromYear_step)

lemma DayFromYear_upper: "0 \<le> n \<Longrightarrow> DayFromYear (1970 + n) \<le> 366 * n"
proof (induction n rule: int_ge_induct)
  case base
  show ?case by (simp add: DayFromYear_def)
next
  case (step i)
  have "DayFromYear (1970 + (i + 1)) = DayFromYear (1970 + i) + DaysInYear (1970 + i)"
    using DayFromYear_step [of "1970 + i"] by (simp add: add.assoc)
  then show ?case
    using step DaysInYear_bounds(2) [of "1970 + i"] by simp
qed

lemma DayFromYear_lower: "n \<le> 0 \<Longrightarrow> DayFromYear (1970 + n) \<le> 365 * n"
proof (induction n rule: int_le_induct)
  case base
  show ?case by (simp add: DayFromYear_def)
next
  case (step i)
  have "DayFromYear (1970 + i) = DayFromYear (1970 + (i - 1)) + DaysInYear (1970 + (i - 1))"
    using DayFromYear_step [of "1970 + (i - 1)"] by simp
  then show ?case
    using step DaysInYear_bounds(1) [of "1970 + (i - 1)"] by simp
qed

lemma year_search_correct:
  "DayFromYear y \<le> d \<Longrightarrow>
   DayFromYear (year_search y d) \<le> d \<and> d < DayFromYear (year_search y d + 1)"
proof (induction y d rule: year_search.induct)
  case (1 y d)
  show ?case
  proof (cases "DayFromYear (y + 1) \<le> d")
    case True
    then show ?thesis
      using "1.IH" by (subst (1 2) year_search.simps) simp
  next
    case False
    then show ?thesis
      using "1.prems" by (subst (1 2) year_search.simps) simp
  qed
qed

lemma YearFromDay_bounds:
  "DayFromYear (YearFromDay d) \<le> d" "d < DayFromYear (YearFromDay d + 1)"
proof -
  have "DayFromYear (1970 + (if 0 \<le> d then d div 366 else d div 365)) \<le> d"
  proof (cases "0 \<le> d")
    case True
    then have "DayFromYear (1970 + d div 366) \<le> 366 * (d div 366)"
      by (intro DayFromYear_upper) (simp add: pos_imp_zdiv_nonneg_iff)
    also have "\<dots> \<le> d"
      by (simp add: True)
    finally show ?thesis using True by simp
  next
    case False
    then have "d div 365 < 0"
      by (simp add: neg_imp_zdiv_neg_iff)
    then have "DayFromYear (1970 + d div 365) \<le> 365 * (d div 365)"
      by (intro DayFromYear_lower) simp
    also have "\<dots> \<le> d"
      by simp
    finally show ?thesis using False by simp
  qed
  then show "DayFromYear (YearFromDay d) \<le> d" "d < DayFromYear (YearFromDay d + 1)"
    unfolding YearFromDay_def using year_search_correct by simp_all
qed

lemma YearFromDay_unique:
  assumes "DayFromYear y \<le> d" and "d < DayFromYear (y + 1)"
  shows "YearFromDay d = y"
proof (rule ccontr)
  assume ne: "YearFromDay d \<noteq> y"
  show False
  proof (cases "YearFromDay d < y")
    case True
    then have "DayFromYear (YearFromDay d + 1) \<le> DayFromYear y"
      by (intro DayFromYear_mono) simp
    with YearFromDay_bounds(2) [of d] assms(1) show False by simp
  next
    case False
    with ne have "DayFromYear (y + 1) \<le> DayFromYear (YearFromDay d)"
      by (intro DayFromYear_mono) simp
    with YearFromDay_bounds(1) [of d] assms(2) show False by simp
  qed
qed

lemma month_cases:
  fixes m :: int
  assumes "0 \<le> m" "m < 12"
  shows "m \<in> {0, 1, 2, 3, 4, 5, 6, 7, 8, 9, 10, 11}"
  using assms by simp arith

lemma InLeapYear_cases: "InLeapYear y = 0 \<or> InLeapYear y = 1"
  by (simp add: InLeapYear_def)

lemma DaysInYear_leap: "DaysInYear y = 365 + InLeapYear y"
  by (simp add: InLeapYear_def DaysInYear_def)

lemma MakeDay_in_year:
  assumes "0 \<le> m" "m < 12" "1 \<le> k" "k \<le> DaysInMonth y m"
  shows "DayFromYear y \<le> MakeDay y m k" "MakeDay y m k < DayFromYear (y + 1)"
  using assms(3,4) InLeapYear_cases [of y] month_cases [OF assms(1,2)]
  by (elim insertE emptyE disjE;
      simp add: MakeDay_def DayOfMonthStart_def DaysInMonth_def DayFromYear_step DaysInYear_leap)+

lemma civil_of_MakeDay:
  assumes "0 \<le> m" "m < 12" "1 \<le> k" "k \<le> DaysInMonth y m"
  shows "YearFromDay (MakeDay y m k) = y"
    and "MonthFromDay (MakeDay y m k) = m"
    and "DateFromDay (MakeDay y m k) = k"
proof -
  show yr: "YearFromDay (MakeDay y m k) = y"
    using MakeDay_in_year [OF assms] by (rule YearFromDay_unique)
  show mo: "MonthFromDay (MakeDay y m k) = m"
    unfolding MonthFromDay_def DayWithinYear_def yr Let_def
    using assms(3,4) InLeapYear_cases [of y] month_cases [OF assms(1,2)]
    by (elim insertE emptyE disjE; simp add: MakeDay_def DayOfMonthStart_def DaysInMonth_def)
  show "DateFromDay (MakeDay y m k) = k"
    unfolding DateFromDay_def DayWithinYear_def yr mo Let_def
    using assms(3,4) InLeapYear_cases [of y] month_cases [OF assms(1,2)]
    by (elim insertE emptyE disjE; simp add: MakeDay_def DayOfMonthStart_def DaysInMonth_def)
qed

lemma DayWithinYear_range: "0 \<le> DayWithinYear d" "DayWithinYear d < 365 + InLeapYear (YearFromDay d)"
  using YearFromDay_bounds [of d]
  by (simp_all add: DayWithinYear_def DayFromYear_step DaysInYear_leap)

lemma civil_exists:
  "\<exists>m k. 0 \<le> m \<and> m < 12 \<and> 1 \<le> k \<and> k \<le> DaysInMonth (YearFromDay d) m
         \<and> MakeDay (YearFromDay d) m k = d"
proof -
  define y where "y = YearFromDay d"
  define l where "l = InLeapYear y"
  define w where "w = d - DayFromYear y"
  have w: "0 \<le> w" "w < 365 + l"
    using DayWithinYear_range [of d] by (simp_all add: w_def l_def y_def DayWithinYear_def)
  have l: "l = 0 \<or> l = 1"
    using InLeapYear_cases [of y] by (simp add: l_def)
  have d: "d = DayFromYear y + w"
    by (simp add: w_def)
  have found: "\<exists>m k. 0 \<le> m \<and> m < 12 \<and> 1 \<le> k \<and> k \<le> DaysInMonth y m \<and> MakeDay y m k = d"
    if lo: "lo \<le> w" and hi: "w < up"
      and tab: "(m, lo, up) \<in> {(0, 0, 31), (1, 31, 59 + l), (2, 59 + l, 90 + l), (3, 90 + l, 120 + l),
        (4, 120 + l, 151 + l), (5, 151 + l, 181 + l), (6, 181 + l, 212 + l), (7, 212 + l, 243 + l),
        (8, 243 + l, 273 + l), (9, 273 + l, 304 + l), (10, 304 + l, 334 + l), (11, 334 + l, 365 + l)}"
    for m lo up :: int
  proof -
    have "0 \<le> m \<and> m < 12 \<and> 1 \<le> w - lo + 1 \<and> w - lo + 1 \<le> DaysInMonth y m
        \<and> MakeDay y m (w - lo + 1) = d"
      using tab lo hi l
      by (elim insertE emptyE; simp add: MakeDay_def DayOfMonthStart_def DaysInMonth_def d
          l_def [symmetric])
    then show ?thesis by blast
  qed
  have ex: "\<exists>m k. 0 \<le> m \<and> m < 12 \<and> 1 \<le> k \<and> k \<le> DaysInMonth y m \<and> MakeDay y m k = d"
  proof -
    show ?thesis
    proof (cases "w < 31")
      case True
      then show ?thesis
        using found [of "0" "31" 0] w(1) by simp
    next
      case False
      then have n0: "31 \<le> w" by simp
      show ?thesis
      proof (cases "w < 59 + l")
        case True
        then show ?thesis
          using found [of "31" "59 + l" 1] n0 by simp
      next
        case False
        then have n1: "59 + l \<le> w" by simp
        show ?thesis
        proof (cases "w < 90 + l")
          case True
          then show ?thesis
            using found [of "59 + l" "90 + l" 2] n1 by simp
        next
          case False
          then have n2: "90 + l \<le> w" by simp
          show ?thesis
          proof (cases "w < 120 + l")
            case True
            then show ?thesis
              using found [of "90 + l" "120 + l" 3] n2 by simp
          next
            case False
            then have n3: "120 + l \<le> w" by simp
            show ?thesis
            proof (cases "w < 151 + l")
              case True
              then show ?thesis
                using found [of "120 + l" "151 + l" 4] n3 by simp
            next
              case False
              then have n4: "151 + l \<le> w" by simp
              show ?thesis
              proof (cases "w < 181 + l")
                case True
                then show ?thesis
                  using found [of "151 + l" "181 + l" 5] n4 by simp
              next
                case False
                then have n5: "181 + l \<le> w" by simp
                show ?thesis
                proof (cases "w < 212 + l")
                  case True
                  then show ?thesis
                    using found [of "181 + l" "212 + l" 6] n5 by simp
                next
                  case False
                  then have n6: "212 + l \<le> w" by simp
                  show ?thesis
                  proof (cases "w < 243 + l")
                    case True
                    then show ?thesis
                      using found [of "212 + l" "243 + l" 7] n6 by simp
                  next
                    case False
                    then have n7: "243 + l \<le> w" by simp
                    show ?thesis
                    proof (cases "w < 273 + l")
                      case True
                      then show ?thesis
                        using found [of "243 + l" "273 + l" 8] n7 by simp
                    next
                      case False
                      then have n8: "273 + l \<le> w" by simp
                      show ?thesis
                      proof (cases "w < 304 + l")
                        case True
                        then show ?thesis
                          using found [of "273 + l" "304 + l" 9] n8 by simp
                      next
                        case False
                        then have n9: "304 + l \<le> w" by simp
                        show ?thesis
                        proof (cases "w < 334 + l")
                          case True
                          then show ?thesis
                            using found [of "304 + l" "334 + l" 10] n9 by simp
                        next
                          case False
                          then have n10: "334 + l \<le> w" by simp
                          show ?thesis
                            using found [of "334 + l" "365 + l" 11] w(2) n10 by simp
                        qed
                      qed
                    qed
                  qed
                qed
              qed
            qed
          qed
        qed
      qed
    qed
  qed
  then show ?thesis
    by (simp add: y_def)
qed

lemma MakeDay_of_civil: "MakeDay (YearFromDay d) (MonthFromDay d) (DateFromDay d) = d"
proof -
  obtain m k where mk: "0 \<le> m" "m < 12" "1 \<le> k" "k \<le> DaysInMonth (YearFromDay d) m"
    and eq: "MakeDay (YearFromDay d) m k = d"
    using civil_exists [of d] by blast
  show ?thesis
    using civil_of_MakeDay(2,3) [OF mk] by (simp add: eq)
qed

lemma MonthFromDay_range: "0 \<le> MonthFromDay d" "MonthFromDay d < 12"
  by (simp_all add: MonthFromDay_def Let_def)

lemma DateFromDay_range:
  "1 \<le> DateFromDay d" "DateFromDay d \<le> DaysInMonth (YearFromDay d) (MonthFromDay d)"
proof -
  obtain m k where mk: "0 \<le> m" "m < 12" "1 \<le> k" "k \<le> DaysInMonth (YearFromDay d) m"
    and eq: "MakeDay (YearFromDay d) m k = d"
    using civil_exists [of d] by blast
  show "1 \<le> DateFromDay d" "DateFromDay d \<le> DaysInMonth (YearFromDay d) (MonthFromDay d)"
    using civil_of_MakeDay(2,3) [OF mk] mk by (simp_all add: eq)
qed

section \<open>Properties of the date strings\<close>

lemma digit_table: "list_all (\<lambda>k. digit_val (digit k) = Some k) [0..9]"
  by code_simp

lemma digit_val_digit: "0 \<le> n \<Longrightarrow> n < 10 \<Longrightarrow> digit_val (digit n) = Some n"
  using digit_table by (simp add: list_all_iff)

lemma digits_val_append:
  "digits_val acc (xs @ ys) =
     (case digits_val acc xs of None \<Rightarrow> None | Some a \<Rightarrow> digits_val a ys)"
  by (induction xs arbitrary: acc) (auto split: option.splits)

lemma length_pad [simp]: "length (pad w n) = w"
  by (induction w arbitrary: n) auto

lemma digits_val_pad:
  "0 \<le> n \<Longrightarrow> n < 10 ^ w \<Longrightarrow> digits_val acc (pad w n) = Some (acc * 10 ^ w + n)"
proof (induction w arbitrary: n)
  case 0
  then show ?case by simp
next
  case (Suc w)
  define k :: int where "k = 10 ^ w"
  have "n < 10 * k"
    using Suc.prems by (simp add: k_def)
  then have "n div 10 < k"
    by linarith
  then have "0 \<le> n div 10" "n div 10 < 10 ^ w"
    using Suc.prems by (simp_all add: pos_imp_zdiv_nonneg_iff k_def)
  then have "digits_val acc (pad w (n div 10)) = Some (acc * 10 ^ w + n div 10)"
    by (rule Suc.IH)
  moreover have "digit_val (digit (n mod 10)) = Some (n mod 10)"
    by (rule digit_val_digit) simp_all
  ultimately show ?case
    by (simp add: digits_val_append algebra_simps)
qed

lemma parse_digits_pad:
  "0 < w \<Longrightarrow> 0 \<le> n \<Longrightarrow> n < 10 ^ w \<Longrightarrow> parse_digits (pad w n) = Some n"
  using digits_val_pad [of n w 0] length_pad [of w n]
  by (auto simp: parse_digits_def simp del: length_pad)

lemma DaysInMonth_le_31: "0 \<le> m \<Longrightarrow> m < 12 \<Longrightarrow> DaysInMonth y m \<le> 31"
proof -
  assume "0 \<le> m" "m < 12"
  from month_cases [OF this] InLeapYear_cases [of y] show ?thesis
    by (elim insertE emptyE disjE; simp add: DaysInMonth_def)
qed

lemma Date_parse_ymd:
  assumes "0 \<le> y" "y \<le> 9999" "1 \<le> m" "m \<le> 12" "1 \<le> d" "d \<le> DaysInMonth y (m - 1)"
  shows "Date_parse (ymd y m d) = Some (MakeDay y (m - 1) d * msPerDay)"
    and "Date_parse (ymd y m d @ ''T00:00:00.000Z'') = Some (MakeDay y (m - 1) d * msPerDay)"
proof -
  have d31: "d \<le> 31"
    using DaysInMonth_le_31 [of "m - 1" y] assms by simp
  have py: "parse_digits (pad 4 y) = Some y"
    using assms by (intro parse_digits_pad) simp_all
  have pm: "parse_digits (pad 2 m) = Some m"
    using assms by (intro parse_digits_pad) simp_all
  have pd: "parse_digits (pad 2 d) = Some d"
    using assms d31 by (intro parse_digits_pad) simp_all
  have t0: "parse_time ''T00:00:00.000Z'' = Some 0"
    by (simp add: parse_time_def parse_digits_def digit_val_def msPerHour_def)
  show "Date_parse (ymd y m d) = Some (MakeDay y (m - 1) d * msPerDay)"
    using assms by (simp add: Date_parse_def ymd_def py pm pd nth_append parse_time_def)
  show "Date_parse (ymd y m d @ ''T00:00:00.000Z'') = Some (MakeDay y (m - 1) d * msPerDay)"
    using assms by (simp add: Date_parse_def ymd_def py pm pd nth_append t0)
qed

lemma Date_parse_toISODate:
  assumes "0 \<le> YearFromDay (Day t)" "YearFromDay (Day t) \<le> 9999"
  shows "toISODate t = ymd (YearFromDay (Day t)) (MonthFromDay (Day t) + 1) (DateFromDay (Day t))"
    and "Date_parse (toISODate t) = Some (Day t * msPerDay)"
proof -
  show eq: "toISODate t
      = ymd (YearFromDay (Day t)) (MonthFromDay (Day t) + 1) (DateFromDay (Day t))"
    using assms by (simp add: toISODate_def ymd_def isoYear_def Let_def)
  have "Date_parse (ymd (YearFromDay (Day t)) (MonthFromDay (Day t) + 1) (DateFromDay (Day t)))
      = Some (MakeDay (YearFromDay (Day t)) (MonthFromDay (Day t) + 1 - 1) (DateFromDay (Day t))
                * msPerDay)"
    using assms MonthFromDay_range [of "Day t"] DateFromDay_range [of "Day t"]
    by (intro Date_parse_ymd(1)) simp_all
  then show "Date_parse (toISODate t) = Some (Day t * msPerDay)"
    by (simp add: eq MakeDay_of_civil)
qed

section \<open>The order of canonical date strings\<close>

text \<open>
  The component compares date strings as strings. On canonical strings
  \<open>YYYY-MM-DD\<close> (years 0 to 9999) of calendar dates this is the order of the dates:
  the fields have a fixed width and stand from the most significant to the least.
\<close>

lemma less_append_same_length:
  fixes xs ys :: "'a::linorder list"
  assumes "length xs = length ys"
  shows "(xs @ us < ys @ vs) = (xs < ys \<or> xs = ys \<and> us < vs)"
  using assms by (induction xs ys rule: list_induct2) auto

lemma le_append_same_length:
  fixes xs ys :: "'a::linorder list"
  assumes "length xs = length ys"
  shows "(xs @ us \<le> ys @ vs) = (xs < ys \<or> xs = ys \<and> us \<le> vs)"
  using assms by (induction xs ys rule: list_induct2) auto

lemma digit_order_table:
  "list_all (\<lambda>a. list_all (\<lambda>b. (digit a < digit b) = (a < b)) [0..9]) [0..9]"
  by code_simp

lemma digit_less:
  assumes "0 \<le> a" "a < 10" "0 \<le> b" "b < 10"
  shows "(digit a < digit b) = (a < b)"
  using digit_order_table assms by (simp add: list_all_iff)

lemma digit_eq:
  assumes "0 \<le> a" "a < 10" "0 \<le> b" "b < 10"
  shows "(digit a = digit b) = (a = b)"
  using digit_less [OF assms] digit_less [OF assms(3,4) assms(1,2)] by (metis less_irrefl linorder_neqE)

lemma pad_order:
  "0 \<le> a \<Longrightarrow> a < 10 ^ w \<Longrightarrow> 0 \<le> b \<Longrightarrow> b < 10 ^ w \<Longrightarrow>
     (pad w a < pad w b) = (a < b) \<and> (pad w a = pad w b) = (a = b)"
proof (induction w arbitrary: a b)
  case 0
  then show ?case by simp
next
  case (Suc w)
  define k :: int where "k = 10 ^ w"
  have "a < 10 * k" "b < 10 * k"
    using Suc.prems by (simp_all add: k_def)
  then have "a div 10 < k" "b div 10 < k"
    by linarith+
  then have q: "0 \<le> a div 10" "a div 10 < 10 ^ w" "0 \<le> b div 10" "b div 10 < 10 ^ w"
    using Suc.prems by (simp_all add: k_def pos_imp_zdiv_nonneg_iff)
  note ih = Suc.IH [OF q]
  have r: "0 \<le> a mod 10" "a mod 10 < 10" "0 \<le> b mod 10" "b mod 10 < 10"
    by simp_all
  have da: "a = 10 * (a div 10) + a mod 10" and db: "b = 10 * (b div 10) + b mod 10"
    by simp_all
  have lt: "(a < b) = (a div 10 < b div 10 \<or> a div 10 = b div 10 \<and> a mod 10 < b mod 10)"
    using r by (subst da, subst db) arith
  have eq: "(a = b) = (a div 10 = b div 10 \<and> a mod 10 = b mod 10)"
    by (metis da db)
  show ?case
    using ih digit_less [OF r] digit_eq [OF r]
    by (simp add: less_append_same_length lt eq)
qed

lemma ymd_le_iff:
  assumes "0 \<le> y" "y \<le> 9999" "0 \<le> m" "m \<le> 99" "0 \<le> d" "d \<le> 99"
    and "0 \<le> y'" "y' \<le> 9999" "0 \<le> m'" "m' \<le> 99" "0 \<le> d'" "d' \<le> 99"
  shows "(ymd y m d \<le> ymd y' m' d') = (y < y' \<or> y = y' \<and> (m < m' \<or> m = m' \<and> d \<le> d'))"
proof -
  have py: "(pad 4 y < pad 4 y') = (y < y')" "(pad 4 y = pad 4 y') = (y = y')"
    using pad_order [of y 4 y'] assms by simp_all
  have pm: "(pad 2 m < pad 2 m') = (m < m')" "(pad 2 m = pad 2 m') = (m = m')"
    using pad_order [of m 2 m'] assms by simp_all
  have pd: "(pad 2 d < pad 2 d') = (d < d')" "(pad 2 d = pad 2 d') = (d = d')"
    using pad_order [of d 2 d'] assms by simp_all
  have "(pad 2 d \<le> pad 2 d') = (d \<le> d')"
    using pd by (auto simp: le_less)
  then show ?thesis
    unfolding ymd_def
    by (simp add: le_append_same_length less_append_same_length py pm pd del: pad.simps)
qed

lemma DayOfMonthStart_mono:
  assumes "0 \<le> m" "m < m'" "m' < 12"
  shows "DayOfMonthStart y m + DaysInMonth y m \<le> DayOfMonthStart y m'"
proof -
  have a: "m \<in> {0, 1, 2, 3, 4, 5, 6, 7, 8, 9, 10, 11}"
    using assms by (intro month_cases) simp_all
  have b: "m' \<in> {0, 1, 2, 3, 4, 5, 6, 7, 8, 9, 10, 11}"
    using assms by (intro month_cases) simp_all
  show ?thesis
    using a b assms(2) InLeapYear_cases [of y]
    by (elim insertE emptyE disjE; simp add: DayOfMonthStart_def DaysInMonth_def)
qed

lemma MakeDay_month: "0 \<le> m \<Longrightarrow> m < 12 \<Longrightarrow> MakeDay y m k = DayOfMonthStart y m + k - 1"
  by (simp add: MakeDay_def)

lemma MakeDay_le_iff:
  assumes "0 \<le> m" "m < 12" "1 \<le> d" "d \<le> DaysInMonth y m"
    and "0 \<le> m'" "m' < 12" "1 \<le> d'" "d' \<le> DaysInMonth y' m'"
  shows "(MakeDay y m d \<le> MakeDay y' m' d')
       = (y < y' \<or> y = y' \<and> (m < m' \<or> m = m' \<and> d \<le> d'))"
proof -
  note a = MakeDay_in_year [OF assms(1-4)]
  note b = MakeDay_in_year [OF assms(5-8)]
  have e: "MakeDay y m d = DayOfMonthStart y m + d - 1" "MakeDay y' m' d' = DayOfMonthStart y' m' + d' - 1"
    using assms by (simp_all add: MakeDay_month)
  show ?thesis
  proof (cases "y = y'")
    case False
    then consider "y < y'" | "y' < y"
      by linarith
    then show ?thesis
    proof cases
      case 1
      then have "DayFromYear (y + 1) \<le> DayFromYear y'"
        by (intro DayFromYear_mono) simp
      with a b 1 show ?thesis by simp
    next
      case 2
      then have "DayFromYear (y' + 1) \<le> DayFromYear y"
        by (intro DayFromYear_mono) simp
      with a b 2 show ?thesis by simp
    qed
  next
    case True
    show ?thesis
    proof (cases "m = m'")
      case same: True
      show ?thesis
        unfolding e using True same by auto
    next
      case False
      then consider "m < m'" | "m' < m"
        by linarith
      then show ?thesis
      proof cases
        case 1
        show ?thesis
          unfolding e using DayOfMonthStart_mono [OF assms(1) 1 assms(6), of y] assms 1 True
          by auto
      next
        case 2
        show ?thesis
          unfolding e using DayOfMonthStart_mono [OF assms(5) 2 assms(2), of y] assms 2 True
          by auto
      qed
    qed
  qed
qed

lemma ymd_order_is_date_order:
  assumes "0 \<le> y" "y \<le> 9999" "1 \<le> m" "m \<le> 12" "1 \<le> d" "d \<le> DaysInMonth y (m - 1)"
    and "0 \<le> y'" "y' \<le> 9999" "1 \<le> m'" "m' \<le> 12" "1 \<le> d'" "d' \<le> DaysInMonth y' (m' - 1)"
  shows "(ymd y m d \<le> ymd y' m' d') = (MakeDay y (m - 1) d \<le> MakeDay y' (m' - 1) d')"
proof -
  have d: "d \<le> 31" "d' \<le> 31"
    using DaysInMonth_le_31 [of "m - 1" y] DaysInMonth_le_31 [of "m' - 1" y'] assms by simp_all
  have "(ymd y m d \<le> ymd y' m' d') = (y < y' \<or> y = y' \<and> (m < m' \<or> m = m' \<and> d \<le> d'))"
    using assms d by (intro ymd_le_iff) simp_all
  also have "\<dots> = (MakeDay y (m - 1) d \<le> MakeDay y' (m' - 1) d')"
    using assms MakeDay_le_iff [of "m - 1" d y "m' - 1" d' y'] by simp
  finally show ?thesis .
qed

section \<open>Validation of dates and hours\<close>

lemma startDate_noon: "Date_parse ''2025-01-01T12:00:00.000Z'' = Some 1735732800000"
  by code_simp

lemma endDate_last: "Date_parse ''2025-12-31T23:59:59.999Z'' = Some 1767225599999"
  by code_simp

lemma startDate_midnight: "Date_parse ''2025-01-01T00:00:00.000Z'' = Some 1735689600000"
  by code_simp

lemma Day_mult [simp]: "Day (x * msPerDay) = x"
  by (simp add: Day_def msPerDay_def)

lemma isValidDate_iff:
  "isValidDate now (Some t) \<longleftrightarrow> 20089 \<le> Day t \<and> Day t \<le> 20453 \<and> Day t \<le> Day now"
  by (simp add: isValidDate_def startDate_noon endDate_last date_le_def setUTCHours_def
      msPerDay_def msPerHour_def) linarith

lemma validateAndClampHours_range:
  "0 \<le> validateAndClampHours h" "validateAndClampHours h \<le> 24"
  by (simp_all add: validateAndClampHours_def)

lemma validateAndClampHours_half: "validateAndClampHours h * 2 \<in> \<int>"
  by (simp add: validateAndClampHours_def Math_round_def min_def max_def)

lemma validateAndClampHours_inside:
  assumes "0 \<le> h" "h \<le> 24"
  shows "validateAndClampHours h = of_int \<lfloor>h * 2 + 1 / 2\<rfloor> / 2"
proof -
  have "0 \<le> \<lfloor>h * 2 + 1 / 2\<rfloor>"
    using assms by simp
  moreover have "\<lfloor>h * 2 + 1 / 2\<rfloor> \<le> 48"
    using assms by (simp add: floor_le_iff)
  ultimately show ?thesis
    by (simp add: validateAndClampHours_def Math_round_def min_def max_def)
qed

lemma round_bounds:
  fixes x :: real
  shows "of_int \<lfloor>x\<rfloor> \<le> x" "x < of_int \<lfloor>x\<rfloor> + 1"
  by linarith+

lemma validateAndClampHours_near:
  assumes "0 \<le> h" "h \<le> 24"
  shows "\<bar>validateAndClampHours h - h\<bar> \<le> 1 / 4"
proof -
  define n where "n = \<lfloor>h * 2 + 1 / 2\<rfloor>"
  have "of_int n \<le> h * 2 + 1 / 2" "h * 2 + 1 / 2 < of_int n + 1"
    unfolding n_def by (rule round_bounds)+
  then have "\<bar>of_int n / 2 - h\<bar> \<le> 1 / 4"
    by linarith
  then show ?thesis
    unfolding validateAndClampHours_inside [OF assms] n_def .
qed

lemma validateAndClampHours_zero_iff:
  assumes "0 \<le> h"
  shows "validateAndClampHours h = 0 \<longleftrightarrow> h < 1 / 4"
proof -
  define n where "n = \<lfloor>h * 2 + 1 / 2\<rfloor>"
  have b: "of_int n \<le> h * 2 + 1 / 2" "h * 2 + 1 / 2 < of_int n + 1"
    unfolding n_def by (rule round_bounds)+
  have n0: "0 \<le> n"
    using assms by (simp add: n_def)
  have "n = 0 \<longleftrightarrow> h < 1 / 4"
  proof
    assume "n = 0"
    with b(2) show "h < 1 / 4" by simp
  next
    assume "h < 1 / 4"
    with b(1) have "(of_int n :: real) < 1" by linarith
    then have "n < 1" by simp
    with n0 show "n = 0" by simp
  qed
  moreover have "validateAndClampHours h = min (of_int n / 2) 24"
    using n0 by (simp add: validateAndClampHours_def Math_round_def n_def max_def)
  ultimately show ?thesis
    using n0 by (auto simp: min_def)
qed

lemma length_ymd [simp]: "length (ymd y m d) = 10"
  by (simp add: ymd_def)

lemma findIndex_Some:
  "findIndex P xs = Some i \<Longrightarrow> i < length xs \<and> P (xs ! i) \<and> (\<forall>j < i. \<not> P (xs ! j))"
proof (induction xs arbitrary: i)
  case Nil
  then show ?case by simp
next
  case (Cons x xs)
  show ?case
  proof (cases "P x")
    case True
    with Cons.prems show ?thesis by simp
  next
    case False
    with Cons.prems obtain k where k: "findIndex P xs = Some k" "i = Suc k"
      by auto
    from Cons.IH [OF k(1)] False show ?thesis
      by (auto simp: k(2) nth_Cons less_Suc_eq_0_disj split: nat.splits)
  qed
qed

lemma findIndex_None: "findIndex P xs = None \<longleftrightarrow> (\<forall>x \<in> set xs. \<not> P x)"
  by (induction xs) auto

lemma find_update_first:
  assumes "findIndex P xs = Some i" and "P y"
  shows "find P (xs[i := y]) = Some y"
  using assms
proof (induction xs arbitrary: i)
  case Nil
  then show ?case by simp
next
  case (Cons x xs)
  then show ?case
    by (cases "P x") (auto split: nat.splits)
qed

lemma find_append_new:
  "findIndex P xs = None \<Longrightarrow> P y \<Longrightarrow> find P (xs @ [y]) = Some y"
  by (induction xs) (auto split: if_splits)

lemma getHoursForDate_setEntryHours:
  "getHoursForDate (setEntryHours s d h) d = h"
proof (cases "findIndex (\<lambda>entry. date entry = d) (entries s)")
  case None
  then show ?thesis
    using find_append_new [of "\<lambda>entry. date entry = d" "entries s" "\<lparr>date = d, hours = h\<rparr>"]
    by (simp add: setEntryHours_def getHoursForDate_def)
next
  case (Some i)
  then have "date (entries s ! i) = d"
    using findIndex_Some [OF Some] by simp
  then show ?thesis
    using find_update_first [OF Some, of "(entries s ! i)\<lparr>hours := h\<rparr>"] Some
    by (simp add: setEntryHours_def getHoursForDate_def)
qed

lemma setEntryHours_fields:
  "error (setEntryHours s d h) = error s"
  "alert (setEntryHours s d h) = alert s"
  "dateRange (setEntryHours s d h) = dateRange s"
  by (simp_all add: setEntryHours_def split: option.splits)

lemma year2025_days: "DayFromYear 2025 = 20089" "DayFromYear 2026 = 20454"
  by (simp_all add: DayFromYear_def)

lemma isValidDate_2025:
  assumes "1 \<le> m" "m \<le> 12" "1 \<le> d" "d \<le> DaysInMonth 2025 (m - 1)"
  shows "Date_parse (ymd 2025 m d @ ''T00:00:00.000Z'') = Some (MakeDay 2025 (m - 1) d * msPerDay)"
    and "Date_parse (ymd 2025 m d) = Some (MakeDay 2025 (m - 1) d * msPerDay)"
    and "isValidDate now (Some (MakeDay 2025 (m - 1) d * msPerDay))
           \<longleftrightarrow> MakeDay 2025 (m - 1) d \<le> Day now"
    and "20089 \<le> MakeDay 2025 (m - 1) d" "MakeDay 2025 (m - 1) d \<le> 20453"
proof -
  show "Date_parse (ymd 2025 m d @ ''T00:00:00.000Z'') = Some (MakeDay 2025 (m - 1) d * msPerDay)"
    using assms by (intro Date_parse_ymd(2)) simp_all
  show "Date_parse (ymd 2025 m d) = Some (MakeDay 2025 (m - 1) d * msPerDay)"
    using assms by (intro Date_parse_ymd(1)) simp_all
  have "DayFromYear 2025 \<le> MakeDay 2025 (m - 1) d" "MakeDay 2025 (m - 1) d < DayFromYear (2025 + 1)"
    using assms by (intro MakeDay_in_year; simp)+
  then show b: "20089 \<le> MakeDay 2025 (m - 1) d" "MakeDay 2025 (m - 1) d \<le> 20453"
    by (simp_all add: year2025_days)
  show "isValidDate now (Some (MakeDay 2025 (m - 1) d * msPerDay))
           \<longleftrightarrow> MakeDay 2025 (m - 1) d \<le> Day now"
    using b by (simp add: isValidDate_iff)
qed

section \<open>Deleting hours\<close>

lemma find_None_filter:
  "find (\<lambda>entry. date entry = d) es = None \<Longrightarrow> filter (\<lambda>entry. date entry \<noteq> d) es = es"
  by (induction es) (auto split: if_splits)

lemma find_map_reduce:
  "find (\<lambda>entry. date entry = d)
     (map (\<lambda>entry. if date entry = d then entry\<lparr>hours := hours entry - a\<rparr> else entry) es)
   = map_option (\<lambda>entry. entry\<lparr>hours := hours entry - a\<rparr>) (find (\<lambda>entry. date entry = d) es)"
  by (induction es) auto

lemma find_filter_removed:
  "find (\<lambda>entry. date entry = d) (filter (\<lambda>entry. date entry \<noteq> d) es) = None"
  by (induction es) auto

lemma deleteEntry_full:
  assumes "amount = None \<or> (\<exists>a. amount = Some a \<and> getHoursForDate s d \<le> a)"
  shows "entries (deleteEntry s d amount) = filter (\<lambda>entry. date entry \<noteq> d) (entries s)"
    and "error (deleteEntry s d amount) = error s"
proof -
  show "entries (deleteEntry s d amount) = filter (\<lambda>entry. date entry \<noteq> d) (entries s)"
  proof (cases "find (\<lambda>entry. date entry = d) (entries s)")
    case None
    then show ?thesis
      by (simp add: deleteEntry_def find_None_filter)
  next
    case (Some e)
    with assms show ?thesis
      by (auto simp: deleteEntry_def getHoursForDate_def split: option.splits if_splits)
  qed
  show "error (deleteEntry s d amount) = error s"
    by (simp add: deleteEntry_def split: option.splits)
qed

lemma deleteEntry_partial:
  assumes "0 < a" and "a < getHoursForDate s d"
  shows "deleteEntry s d (Some a) =
         s\<lparr>entries := map (\<lambda>entry. if date entry = d
                                    then entry\<lparr>hours := hours entry - a\<rparr>
                                    else entry) (entries s),
           alert := Some (RemovedHours a d)\<rparr>"
  using assms
  by (auto simp: deleteEntry_def getHoursForDate_def split: option.splits if_splits)

text \<open>
  C3. \<open>deleteEntry(date, amount)\<close>, with \<open>current = getHoursForDate\<close> before the call:
  when the amount is omitted or at least \<open>current(date)\<close>, every record of the date is
  gone, the other records stay as they were and the date reads 0; when
  \<open>0 < amount < current(date)\<close> the date's record stays in place with its hours
  reduced by exactly the amount, however small the remainder; and when the date has no
  record the state is returned as it was, with no error raised.
\<close>

theorem deleteEntry_spec:
  "((amount = None \<or> (\<exists>a. amount = Some a \<and> getHoursForDate s d \<le> a)) \<longrightarrow>
      entries (deleteEntry s d amount) = filter (\<lambda>entry. date entry \<noteq> d) (entries s)
      \<and> d \<notin> date ` set (entries (deleteEntry s d amount))
      \<and> getHoursForDate (deleteEntry s d amount) d = 0
      \<and> error (deleteEntry s d amount) = error s)
   \<and> (\<forall>a. amount = Some a \<and> 0 < a \<and> a < getHoursForDate s d \<longrightarrow>
      getHoursForDate (deleteEntry s d amount) d = getHoursForDate s d - a
      \<and> 0 < getHoursForDate (deleteEntry s d amount) d
      \<and> map date (entries (deleteEntry s d amount)) = map date (entries s)
      \<and> d \<in> date ` set (entries (deleteEntry s d amount))
      \<and> (\<forall>i < length (entries s). date (entries s ! i) \<noteq> d \<longrightarrow>
            entries (deleteEntry s d amount) ! i = entries s ! i)
      \<and> error (deleteEntry s d amount) = error s)
   \<and> (d \<notin> date ` set (entries s) \<longrightarrow> deleteEntry s d amount = s)"
proof (intro conjI impI allI)
  assume full: "amount = None \<or> (\<exists>a. amount = Some a \<and> getHoursForDate s d \<le> a)"
  note eq = deleteEntry_full [OF full]
  show "entries (deleteEntry s d amount) = filter (\<lambda>entry. date entry \<noteq> d) (entries s)"
    by (rule eq(1))
  show "d \<notin> date ` set (entries (deleteEntry s d amount))"
    by (auto simp: eq(1))
  show "getHoursForDate (deleteEntry s d amount) d = 0"
    by (simp add: eq(1) getHoursForDate_def find_filter_removed)
  show "error (deleteEntry s d amount) = error s"
    by (rule eq(2))
next
  fix a
  assume h: "amount = Some a \<and> 0 < a \<and> a < getHoursForDate s d"
  then have amt: "amount = Some a" and pos: "0 < a" and below: "a < getHoursForDate s d"
    by simp_all
  note eq = deleteEntry_partial [OF pos below]
  from h obtain e where e: "find (\<lambda>entry. date entry = d) (entries s) = Some e"
    by (cases "find (\<lambda>entry. date entry = d) (entries s)") (auto simp: getHoursForDate_def)
  then have cur: "getHoursForDate s d = hours e"
    by (simp add: getHoursForDate_def)
  have de: "date e = d"
    using e by (auto simp: find_Some_iff)
  have mem: "e \<in> set (entries s)"
    using e by (auto simp: find_Some_iff)
  show "getHoursForDate (deleteEntry s d amount) d = getHoursForDate s d - a"
    using pos below unfolding amt
    by (simp add: eq getHoursForDate_def find_map_reduce e)
  then show "0 < getHoursForDate (deleteEntry s d amount) d"
    using below by simp
  show "map date (entries (deleteEntry s d amount)) = map date (entries s)"
    unfolding amt by (simp add: eq comp_def if_distrib [of date] cong: if_cong)
  then have "date ` set (entries (deleteEntry s d amount)) = date ` set (entries s)"
    by (metis set_map)
  then show "d \<in> date ` set (entries (deleteEntry s d amount))"
    using mem de by auto
  show "error (deleteEntry s d amount) = error s"
    unfolding amt by (simp add: eq)
  show "\<And>i. i < length (entries s) \<Longrightarrow> date (entries s ! i) \<noteq> d \<Longrightarrow>
          entries (deleteEntry s d amount) ! i = entries s ! i"
    unfolding amt by (simp add: eq)
next
  assume "d \<notin> date ` set (entries s)"
  then have "find (\<lambda>entry. date entry = d) (entries s) = None"
    by (auto simp: find_None_iff)
  then show "deleteEntry s d amount = s"
    by (simp add: deleteEntry_def)
qed

theorem deleteEntry_spec_witness:
  "getHoursForDate (deleteEntry \<lparr>entries = [\<lparr>date = ''2025-01-05'', hours = 5\<rparr>], error = None, alert = None,
        dateRange = (None, None)\<rparr>
      ''2025-01-05'' (Some 2)) ''2025-01-05'' = 3
   \<and> entries (deleteEntry \<lparr>entries = [\<lparr>date = ''2025-01-05'', hours = 5\<rparr>], error = None, alert = None,
        dateRange = (None, None)\<rparr>
      ''2025-01-05'' (Some 5)) = []
   \<and> entries (deleteEntry \<lparr>entries = [\<lparr>date = ''2025-01-05'', hours = 5\<rparr>], error = None, alert = None,
        dateRange = (None, None)\<rparr>
      ''2025-01-05'' (Some 10)) = []
   \<and> entries (deleteEntry \<lparr>entries = [\<lparr>date = ''2025-01-05'', hours = 5\<rparr>], error = None, alert = None,
        dateRange = (None, None)\<rparr>
      ''2025-01-05'' None) = []
   \<and> deleteEntry \<lparr>entries = [\<lparr>date = ''2025-01-05'', hours = 5\<rparr>], error = None, alert = None,
        dateRange = (None, None)\<rparr>
      ''2025-01-06'' (Some 2)
     = \<lparr>entries = [\<lparr>date = ''2025-01-05'', hours = 5\<rparr>], error = None, alert = None,
        dateRange = (None, None)\<rparr>"
  using
    deleteEntry_spec [of "Some 2" "\<lparr>entries = [\<lparr>date = ''2025-01-05'', hours = 5\<rparr>], error = None, alert = None,
        dateRange = (None, None)\<rparr>"
      "''2025-01-05''"]
    deleteEntry_spec [of "Some 5" "\<lparr>entries = [\<lparr>date = ''2025-01-05'', hours = 5\<rparr>], error = None, alert = None,
        dateRange = (None, None)\<rparr>"
      "''2025-01-05''"]
    deleteEntry_spec [of "Some 10" "\<lparr>entries = [\<lparr>date = ''2025-01-05'', hours = 5\<rparr>], error = None, alert = None,
        dateRange = (None, None)\<rparr>"
      "''2025-01-05''"]
    deleteEntry_spec [of None "\<lparr>entries = [\<lparr>date = ''2025-01-05'', hours = 5\<rparr>], error = None, alert = None,
        dateRange = (None, None)\<rparr>"
      "''2025-01-05''"]
    deleteEntry_spec [of "Some 2" "\<lparr>entries = [\<lparr>date = ''2025-01-05'', hours = 5\<rparr>], error = None, alert = None,
        dateRange = (None, None)\<rparr>"
      "''2025-01-06''"]
  by (simp add: getHoursForDate_def)

text \<open>
  C10. An explicit amount of exactly 0 on a date that has a record is a full deletion:
  the result is the one of the call with the amount omitted, every record of the date
  is removed (so the ledger gets shorter), and the hours are not left as they were.
\<close>

theorem deleteEntry_zero_is_full:
  assumes "d \<in> date ` set (entries s)"
  shows "deleteEntry s d (Some 0) = deleteEntry s d None
         \<and> entries (deleteEntry s d (Some 0)) = filter (\<lambda>entry. date entry \<noteq> d) (entries s)
         \<and> d \<notin> date ` set (entries (deleteEntry s d (Some 0)))
         \<and> length (entries (deleteEntry s d (Some 0))) < length (entries s)"
proof -
  obtain e where e: "find (\<lambda>entry. date entry = d) (entries s) = Some e"
    using assms by (cases "find (\<lambda>entry. date entry = d) (entries s)") (auto simp: find_None_iff)
  have zero: "deleteEntry s d (Some 0) =
      s\<lparr>entries := filter (\<lambda>entry. date entry \<noteq> d) (entries s), alert := Some (RemovedAll d)\<rparr>"
    by (simp add: deleteEntry_def e)
  have none: "deleteEntry s d None =
      s\<lparr>entries := filter (\<lambda>entry. date entry \<noteq> d) (entries s), alert := Some (RemovedAll d)\<rparr>"
    by (simp add: deleteEntry_def e)
  obtain x where x: "x \<in> set (entries s)" "date x = d"
    using assms by auto
  have shorter: "length (filter (\<lambda>entry. date entry \<noteq> d) (entries s)) < length (entries s)"
    by (rule length_filter_less [OF x(1)]) (simp add: x(2))
  show ?thesis
    using shorter by (auto simp: zero none)
qed

theorem deleteEntry_zero_is_full_witness:
  "''2025-01-05'' \<in> date ` set (entries \<lparr>entries = [\<lparr>date = ''2025-01-05'', hours = 5\<rparr>], error = None, alert = None,
        dateRange = (None, None)\<rparr>)
   \<and> entries (deleteEntry \<lparr>entries = [\<lparr>date = ''2025-01-05'', hours = 5\<rparr>], error = None, alert = None,
        dateRange = (None, None)\<rparr>
        ''2025-01-05'' (Some 0)) = []"
  using deleteEntry_zero_is_full
    [of "''2025-01-05''" "\<lparr>entries = [\<lparr>date = ''2025-01-05'', hours = 5\<rparr>], error = None, alert = None,
        dateRange = (None, None)\<rparr>"]
  by (simp add: deleteEntry_def)

section \<open>Logging hours for a date\<close>

text \<open>
  C1 (as the program has it). For every date of 2025 that is not after today's UTC date,
  and every hours value \<open>h\<close> that is 0 or lies in \<open>[0.25, 24]\<close>, \<open>handleSubmit\<close>
  raises no error and an immediate \<open>getHoursForDate\<close> of that date returns
  \<open>floor (2 h + 1/2) / 2\<close>, the multiple of 0.5 nearest to \<open>h\<close> (a tie going up), at
  most 0.25 away from \<open>h\<close>. For \<open>0 < h < 0.25\<close> the rounded value is 0 while the input
  is not, and \<open>handleSubmit\<close> rejects the request with the error
  "Hours must be between 0 and 24", leaving the entries as they were.
\<close>

theorem handleSubmit_reads_back:
  assumes "1 \<le> m" "m \<le> 12" "1 \<le> d" "d \<le> DaysInMonth 2025 (m - 1)"
    and "MakeDay 2025 (m - 1) d \<le> Day now"
  shows "((h = 0 \<or> 1 / 4 \<le> h) \<and> h \<le> 24 \<longrightarrow>
            error (handleSubmit now s (ymd 2025 m d) (Some h)) = error s
          \<and> alert (handleSubmit now s (ymd 2025 m d) (Some h))
              = Some (Logged (of_int \<lfloor>h * 2 + 1 / 2\<rfloor> / 2) (ymd 2025 m d))
          \<and> getHoursForDate (handleSubmit now s (ymd 2025 m d) (Some h)) (ymd 2025 m d)
              = of_int \<lfloor>h * 2 + 1 / 2\<rfloor> / 2
          \<and> \<bar>getHoursForDate (handleSubmit now s (ymd 2025 m d) (Some h)) (ymd 2025 m d) - h\<bar>
              \<le> 1 / 4)
       \<and> (0 < h \<and> h < 1 / 4 \<longrightarrow>
            handleSubmit now s (ymd 2025 m d) (Some h)
              = s\<lparr>error := Some ''Hours must be between 0 and 24''\<rparr>)"
proof (intro conjI impI)
  assume h: "(h = 0 \<or> 1 / 4 \<le> h) \<and> h \<le> 24"
  then have h0: "0 \<le> h" and h24: "h \<le> 24"
    by auto
  define r where "r = validateAndClampHours h"
  have r: "r = of_int \<lfloor>h * 2 + 1 / 2\<rfloor> / 2"
    unfolding r_def by (rule validateAndClampHours_inside [OF h0 h24])
  have guard: "(r = 0 \<and> h \<noteq> 0) = False"
    using h validateAndClampHours_zero_iff [OF h0] by (auto simp: r_def)
  have valid: "isValidDate now (Date_parse (ymd 2025 m d @ ''T00:00:00.000Z''))"
    using isValidDate_2025(1,3) [OF assms(1-4)] assms(5) by simp
  have eq: "handleSubmit now s (ymd 2025 m d) (Some h)
      = (setEntryHours s (ymd 2025 m d) r)\<lparr>alert := Some (Logged r (ymd 2025 m d))\<rparr>"
    using guard valid by (auto simp: handleSubmit_def r_def [symmetric] Let_def)
  have read: "getHoursForDate (handleSubmit now s (ymd 2025 m d) (Some h)) (ymd 2025 m d) = r"
    using getHoursForDate_setEntryHours [of s "ymd 2025 m d" r]
    by (simp add: eq getHoursForDate_def)
  show "error (handleSubmit now s (ymd 2025 m d) (Some h)) = error s"
    by (simp add: eq setEntryHours_fields)
  show "alert (handleSubmit now s (ymd 2025 m d) (Some h))
      = Some (Logged (of_int \<lfloor>h * 2 + 1 / 2\<rfloor> / 2) (ymd 2025 m d))"
    by (simp add: eq r)
  show "getHoursForDate (handleSubmit now s (ymd 2025 m d) (Some h)) (ymd 2025 m d)
      = of_int \<lfloor>h * 2 + 1 / 2\<rfloor> / 2"
    using read r by simp
  show "\<bar>getHoursForDate (handleSubmit now s (ymd 2025 m d) (Some h)) (ymd 2025 m d) - h\<bar> \<le> 1 / 4"
    using validateAndClampHours_near [OF h0 h24] by (simp add: read r_def)
next
  assume h: "0 < h \<and> h < 1 / 4"
  then have "validateAndClampHours h = 0"
    using validateAndClampHours_zero_iff [of h] by simp
  then show "handleSubmit now s (ymd 2025 m d) (Some h)
      = s\<lparr>error := Some ''Hours must be between 0 and 24''\<rparr>"
    using h by (simp add: handleSubmit_def)
qed

theorem handleSubmit_reads_back_witness:
  "getHoursForDate (handleSubmit 1762106400000
       \<lparr>entries = [], error = None, alert = None, dateRange = (None, None)\<rparr>
       ''2025-03-09'' (Some (17 / 5))) ''2025-03-09'' = 7 / 2
   \<and> handleSubmit 1762106400000
       \<lparr>entries = [], error = None, alert = None, dateRange = (None, None)\<rparr>
       ''2025-03-09'' (Some (1 / 5))
     = \<lparr>entries = [], error = Some ''Hours must be between 0 and 24'', alert = None,
        dateRange = (None, None)\<rparr>"
proof -
  have d: "ymd 2025 3 9 = ''2025-03-09''"
    by code_simp
  have pre: "(1::int) \<le> 3" "(3::int) \<le> 12" "(1::int) \<le> 9" "9 \<le> DaysInMonth 2025 (3 - 1)"
    "MakeDay 2025 (3 - 1) 9 \<le> Day 1762106400000"
    by (simp_all add: DaysInMonth_def MakeDay_def DayOfMonthStart_def DayFromYear_def Day_def
        msPerDay_def InLeapYear_def DaysInYear_def)
  show ?thesis
    using handleSubmit_reads_back [OF pre, of "17 / 5"
        "\<lparr>entries = [], error = None, alert = None, dateRange = (None, None)\<rparr>"]
      handleSubmit_reads_back [OF pre, of "1 / 5"
        "\<lparr>entries = [], error = None, alert = None, dateRange = (None, None)\<rparr>"]
    by (simp add: d)
qed

text \<open>
  The claim as stated, for all \<open>0 \<le> h \<le> 24\<close>, fails at \<open>h = 1/8\<close> on the valid date
  2025-01-15: the request is rejected.
\<close>

theorem handleSubmit_small_hours_rejected:
  "(0::real) \<le> 1 / 8 \<and> (1 / 8 :: real) \<le> 24
   \<and> isValidDate 1762106400000 (Date_parse (''2025-01-15'' @ ''T00:00:00.000Z''))
   \<and> handleSubmit 1762106400000
       \<lparr>entries = [], error = None, alert = None, dateRange = (None, None)\<rparr>
       ''2025-01-15'' (Some (1 / 8))
     = \<lparr>entries = [], error = Some ''Hours must be between 0 and 24'', alert = None,
        dateRange = (None, None)\<rparr>"
proof -
  have "Date_parse (''2025-01-15'' @ ''T00:00:00.000Z'') = Some 1736899200000"
    by code_simp
  then have "isValidDate 1762106400000 (Date_parse (''2025-01-15'' @ ''T00:00:00.000Z''))"
    by (simp add: isValidDate_iff Day_def msPerDay_def)
  moreover have "validateAndClampHours (1 / 8) = 0"
    by (simp add: validateAndClampHours_def Math_round_def)
  ultimately show ?thesis
    by (simp add: handleSubmit_def)
qed

section \<open>Quick add\<close>

lemma quickAdd_guard:
  "quickAdd now s amount =
     (if now < 1735689600000 then s\<lparr>error := Some ''Cannot add hours before 2025''\<rparr>
      else addToDate s (toISODate now) amount)"
  by (simp add: quickAdd_def startDate_midnight date_lt_def)

lemma addToDate_same:
  assumes "validateAndClampHours (getHoursForDate s d + amount) = getHoursForDate s d"
  shows "addToDate s d amount =
     (if amount > 0 then s\<lparr>error := Some ''Cannot exceed 24 hours in a day''\<rparr>
      else if amount < 0 then s\<lparr>error := Some ''Hours cannot be negative''\<rparr>
      else s)"
  using assms by (simp add: addToDate_def Let_def)

lemma addToDate_changed:
  assumes "validateAndClampHours (getHoursForDate s d + amount) \<noteq> getHoursForDate s d"
  shows "addToDate s d amount
     = setEntryHours s d (validateAndClampHours (getHoursForDate s d + amount))"
  using assms by (simp add: addToDate_def Let_def)

lemma validateAndClampHours_half_step:
  assumes "k < 48"
  shows "validateAndClampHours (of_nat k / 2 + 1 / 2) = of_nat (Suc k) / 2"
proof -
  have "(of_nat k / 2 + 1 / 2) * 2 + 1 / 2 = (of_int (int k + 1) :: real) + 1 / 2"
    by simp
  then have "\<lfloor>(of_nat k / 2 + 1 / 2 :: real) * 2 + 1 / 2\<rfloor> = int k + 1"
    by (simp only: floor_add_int) simp
  then have "Math_round ((of_nat k / 2 + 1 / 2) * 2) = of_nat k + 1"
    by (simp add: Math_round_def)
  then show ?thesis
    using assms by (simp add: validateAndClampHours_def min_def max_def add_divide_distrib)
qed

lemma validateAndClampHours_full: "validateAndClampHours (24 + 1 / 2) = 24"
  by (simp add: validateAndClampHours_def Math_round_def)

lemma quickAdd_half_step:
  assumes "1735689600000 \<le> now" and "getHoursForDate s (toISODate now) = of_nat k / 2"
    and "k < 48"
  shows "getHoursForDate (quickAdd now s (1 / 2)) (toISODate now) = of_nat (Suc k) / 2"
    and "error (quickAdd now s (1 / 2)) = error s"
proof -
  have new: "validateAndClampHours (getHoursForDate s (toISODate now) + 1 / 2) = of_nat (Suc k) / 2"
    using validateAndClampHours_half_step [OF assms(3)] by (simp add: assms(2))
  then have "validateAndClampHours (getHoursForDate s (toISODate now) + 1 / 2)
      \<noteq> getHoursForDate s (toISODate now)"
    by (simp add: assms(2) field_simps)
  then have eq: "quickAdd now s (1 / 2) = setEntryHours s (toISODate now) (of_nat (Suc k) / 2)"
    using assms(1) addToDate_changed [of s "toISODate now" "1 / 2"]
    by (simp add: quickAdd_guard new)
  show "getHoursForDate (quickAdd now s (1 / 2)) (toISODate now) = of_nat (Suc k) / 2"
    unfolding eq by (rule getHoursForDate_setEntryHours)
  show "error (quickAdd now s (1 / 2)) = error s"
    unfolding eq by (rule setEntryHours_fields)
qed

lemma quickAdd_half_iterated:
  assumes "1735689600000 \<le> now" and "getHoursForDate s (toISODate now) = 0"
  shows "n \<le> 48 \<Longrightarrow>
     getHoursForDate (((\<lambda>s'. quickAdd now s' (1 / 2)) ^^ n) s) (toISODate now) = of_nat n / 2
     \<and> error (((\<lambda>s'. quickAdd now s' (1 / 2)) ^^ n) s) = error s"
proof (induction n)
  case 0
  then show ?case by (simp add: assms(2))
next
  case (Suc n)
  then have ih: "getHoursForDate (((\<lambda>s'. quickAdd now s' (1 / 2)) ^^ n) s) (toISODate now)
        = of_nat n / 2"
      "error (((\<lambda>s'. quickAdd now s' (1 / 2)) ^^ n) s) = error s"
    by simp_all
  have "n < 48"
    using Suc.prems by simp
  from quickAdd_half_step [OF assms(1) ih(1) this] ih(2) show ?case
    by simp
qed

text \<open>
  C4 (as the program has it). Here 1735689600000 is the time value of
  2025-01-01T00:00:00.000Z, the bound of the guard at the head of \<open>quickAdd\<close>, and
  \<open>toISODate now\<close> is today's date string. With \<open>delta \<noteq> 0\<close> and today not before
  2025-01-01, \<open>quickAdd\<close> computes
  \<open>candidate = validateAndClampHours (current(today) + delta)\<close>; when the candidate
  equals \<open>current(today)\<close> the entries stay as they were and the error is
  "Cannot exceed 24 hours in a day" for a positive delta and "Hours cannot be negative"
  for a negative one; otherwise today's record is set to the candidate and no error is
  raised. From a 0-hour baseline 48 calls with 0.5 reach exactly 24 without an error,
  and the 49th fails with "Cannot exceed 24 hours in a day". Before 2025-01-01 every
  call fails with "Cannot add hours before 2025" and changes nothing else.
\<close>

theorem quickAdd_spec:
  assumes "delta \<noteq> 0"
  shows "(1735689600000 \<le> now \<longrightarrow>
            (validateAndClampHours (getHoursForDate s (toISODate now) + delta)
                = getHoursForDate s (toISODate now) \<longrightarrow>
               quickAdd now s delta
                 = s\<lparr>error := Some (if 0 < delta then ''Cannot exceed 24 hours in a day''
                                     else ''Hours cannot be negative'')\<rparr>)
          \<and> (validateAndClampHours (getHoursForDate s (toISODate now) + delta)
                \<noteq> getHoursForDate s (toISODate now) \<longrightarrow>
               quickAdd now s delta
                 = setEntryHours s (toISODate now)
                     (validateAndClampHours (getHoursForDate s (toISODate now) + delta))
               \<and> getHoursForDate (quickAdd now s delta) (toISODate now)
                   = validateAndClampHours (getHoursForDate s (toISODate now) + delta)
               \<and> error (quickAdd now s delta) = error s)
          \<and> (getHoursForDate s (toISODate now) = 0 \<longrightarrow>
               getHoursForDate (((\<lambda>s'. quickAdd now s' (1 / 2)) ^^ 48) s) (toISODate now) = 24
               \<and> error (((\<lambda>s'. quickAdd now s' (1 / 2)) ^^ 48) s) = error s
               \<and> quickAdd now (((\<lambda>s'. quickAdd now s' (1 / 2)) ^^ 48) s) (1 / 2)
                   = (((\<lambda>s'. quickAdd now s' (1 / 2)) ^^ 48) s)
                       \<lparr>error := Some ''Cannot exceed 24 hours in a day''\<rparr>))
       \<and> (now < 1735689600000 \<longrightarrow>
            quickAdd now s delta = s\<lparr>error := Some ''Cannot add hours before 2025''\<rparr>)"
proof (intro conjI impI)
  assume now: "1735689600000 \<le> now"
    and same: "validateAndClampHours (getHoursForDate s (toISODate now) + delta)
                = getHoursForDate s (toISODate now)"
  show "quickAdd now s delta
      = s\<lparr>error := Some (if 0 < delta then ''Cannot exceed 24 hours in a day''
                          else ''Hours cannot be negative'')\<rparr>"
    using now assms addToDate_same [OF same] by (simp add: quickAdd_guard)
next
  assume now: "1735689600000 \<le> now"
    and changed: "validateAndClampHours (getHoursForDate s (toISODate now) + delta)
                \<noteq> getHoursForDate s (toISODate now)"
  show eq: "quickAdd now s delta
      = setEntryHours s (toISODate now)
          (validateAndClampHours (getHoursForDate s (toISODate now) + delta))"
    using now addToDate_changed [OF changed] by (simp add: quickAdd_guard)
  show "getHoursForDate (quickAdd now s delta) (toISODate now)
      = validateAndClampHours (getHoursForDate s (toISODate now) + delta)"
    unfolding eq by (rule getHoursForDate_setEntryHours)
  show "error (quickAdd now s delta) = error s"
    unfolding eq by (rule setEntryHours_fields)
next
  assume now: "1735689600000 \<le> now" and zero: "getHoursForDate s (toISODate now) = 0"
  have it: "getHoursForDate (((\<lambda>s'. quickAdd now s' (1 / 2)) ^^ 48) s) (toISODate now) = 24"
      "error (((\<lambda>s'. quickAdd now s' (1 / 2)) ^^ 48) s) = error s"
    using quickAdd_half_iterated [OF now zero, of 48] by simp_all
  show "getHoursForDate (((\<lambda>s'. quickAdd now s' (1 / 2)) ^^ 48) s) (toISODate now) = 24"
    by (rule it(1))
  show "error (((\<lambda>s'. quickAdd now s' (1 / 2)) ^^ 48) s) = error s"
    by (rule it(2))
  have "validateAndClampHours
          (getHoursForDate (((\<lambda>s'. quickAdd now s' (1 / 2)) ^^ 48) s) (toISODate now) + 1 / 2)
      = getHoursForDate (((\<lambda>s'. quickAdd now s' (1 / 2)) ^^ 48) s) (toISODate now)"
    using validateAndClampHours_full by (simp add: it(1))
  from addToDate_same [OF this]
  show "quickAdd now (((\<lambda>s'. quickAdd now s' (1 / 2)) ^^ 48) s) (1 / 2)
      = (((\<lambda>s'. quickAdd now s' (1 / 2)) ^^ 48) s)
          \<lparr>error := Some ''Cannot exceed 24 hours in a day''\<rparr>"
    using now by (simp add: quickAdd_guard)
next
  assume "now < 1735689600000"
  then show "quickAdd now s delta = s\<lparr>error := Some ''Cannot add hours before 2025''\<rparr>"
    by (simp add: quickAdd_guard)
qed

lemma today_20251102: "toISODate 1762106400000 = ''2025-11-02''"
  by code_simp

theorem quickAdd_spec_witness:
  "getHoursForDate (quickAdd 1762106400000
       \<lparr>entries = [], error = None, alert = None, dateRange = (None, None)\<rparr> (1 / 2))
     ''2025-11-02'' = 1 / 2
   \<and> quickAdd 1762106400000
       \<lparr>entries = [\<lparr>date = ''2025-11-02'', hours = 24\<rparr>], error = None, alert = None,
          dateRange = (None, None)\<rparr> (1 / 2)
     = \<lparr>entries = [\<lparr>date = ''2025-11-02'', hours = 24\<rparr>],
        error = Some ''Cannot exceed 24 hours in a day'', alert = None,
        dateRange = (None, None)\<rparr>
   \<and> getHoursForDate (((\<lambda>s'. quickAdd 1762106400000 s' (1 / 2)) ^^ 48)
       \<lparr>entries = [], error = None, alert = None, dateRange = (None, None)\<rparr>)
     ''2025-11-02'' = 24
   \<and> quickAdd 1735689599999
       \<lparr>entries = [], error = None, alert = None, dateRange = (None, None)\<rparr> (1 / 2)
     = \<lparr>entries = [], error = Some ''Cannot add hours before 2025'', alert = None,
        dateRange = (None, None)\<rparr>"
proof -
  have ne: "(1 / 2 :: real) \<noteq> 0"
    by simp
  have v: "validateAndClampHours (1 / 2) = 1 / 2" "validateAndClampHours (49 / 2) = 24"
    by (simp_all add: validateAndClampHours_def Math_round_def)
  have g: "getHoursForDate \<lparr>entries = [], error = None, alert = None, dateRange = (None, None)\<rparr>
        ''2025-11-02'' = 0"
    "getHoursForDate \<lparr>entries = [\<lparr>date = ''2025-11-02'', hours = 24\<rparr>], error = None,
        alert = None, dateRange = (None, None)\<rparr> ''2025-11-02'' = 24"
    by (simp_all add: getHoursForDate_def)
  show ?thesis
    using quickAdd_spec [OF ne, of 1762106400000
        "\<lparr>entries = [], error = None, alert = None, dateRange = (None, None)\<rparr>"]
      quickAdd_spec [OF ne, of 1762106400000
        "\<lparr>entries = [\<lparr>date = ''2025-11-02'', hours = 24\<rparr>], error = None, alert = None,
          dateRange = (None, None)\<rparr>"]
      quickAdd_spec [OF ne, of 1735689599999
        "\<lparr>entries = [], error = None, alert = None, dateRange = (None, None)\<rparr>"]
    by (simp add: today_20251102 g v getHoursForDate_setEntryHours)
qed

text \<open>
  The claim as stated, without the guard: one millisecond before 2025 the candidate 0.5
  differs from the current 0, and yet nothing is recorded.
\<close>

theorem quickAdd_before_2025_rejected:
  "validateAndClampHours
     (getHoursForDate \<lparr>entries = [], error = None, alert = None, dateRange = (None, None)\<rparr>
        (toISODate 1735689599999) + 1 / 2)
     \<noteq> getHoursForDate \<lparr>entries = [], error = None, alert = None, dateRange = (None, None)\<rparr>
        (toISODate 1735689599999)
   \<and> quickAdd 1735689599999
       \<lparr>entries = [], error = None, alert = None, dateRange = (None, None)\<rparr> (1 / 2)
     = \<lparr>entries = [], error = Some ''Cannot add hours before 2025'', alert = None,
        dateRange = (None, None)\<rparr>"
  by (simp add: quickAdd_guard getHoursForDate_def validateAndClampHours_def Math_round_def)

section \<open>Preservation of the invariants\<close>

lemma Date_parse_length: "Date_parse x = Some t \<Longrightarrow> length x = 10 \<or> length x = 24"
  by (auto simp: Date_parse_def parse_time_def split: if_splits option.splits)

lemma Date_parse_date_only:
  assumes "Date_parse x = Some t" "length x = 10"
  shows "t = Day t * msPerDay"
  using assms
  by (auto simp: Date_parse_def parse_time_def split: if_splits option.splits)

lemma Date_parse_midnight_suffix:
  assumes "Date_parse (sel @ ''T00:00:00.000Z'') = Some t"
  shows "length sel = 10" and "Date_parse sel = Some t"
proof -
  show len: "length sel = 10"
    using Date_parse_length [OF assms] by auto
  have t0: "parse_time ''T00:00:00.000Z'' = Some 0"
    by (simp add: parse_time_def parse_digits_def digit_val_def msPerHour_def)
  have p0: "parse_time [] = Some 0"
    by (simp add: parse_time_def)
  have e: "take 4 (sel @ ''T00:00:00.000Z'') = take 4 sel"
    "take 2 (drop 5 (sel @ ''T00:00:00.000Z'')) = take 2 (drop 5 sel)"
    "take 2 (drop 8 (sel @ ''T00:00:00.000Z'')) = take 2 (drop 8 sel)"
    "drop 10 (sel @ ''T00:00:00.000Z'') = ''T00:00:00.000Z''"
    "drop 10 sel = []"
    "(sel @ ''T00:00:00.000Z'') ! 4 = sel ! 4"
    "(sel @ ''T00:00:00.000Z'') ! 7 = sel ! 7"
    using len by (simp_all add: nth_append)
  have "Date_parse (sel @ ''T00:00:00.000Z'') = Date_parse sel"
    unfolding Date_parse_def e t0 p0 using len by simp
  with assms show "Date_parse sel = Some t"
    by simp
qed

lemma window_bounds:
  "Date_parse ''2025-01-01'' = Some (20089 * msPerDay)"
  "Date_parse ''2025-12-31'' = Some (20453 * msPerDay)"
  by code_simp+

lemma inWindow_iff:
  assumes "Date_parse x = Some t" "length x = 10"
  shows "inWindow x \<longleftrightarrow> 20089 \<le> Day t \<and> Day t \<le> 20453"
proof -
  have "t = Day t * msPerDay"
    using Date_parse_date_only [OF assms] .
  then have "20089 * msPerDay \<le> t \<longleftrightarrow> 20089 \<le> Day t" "t \<le> 20453 * msPerDay \<longleftrightarrow> Day t \<le> 20453"
    by (simp_all add: msPerDay_def) linarith+
  then show ?thesis
    by (simp add: inWindow_def assms window_bounds date_le_def)
qed

lemma isValidDate_selected:
  assumes "isValidDate now (Date_parse (sel @ ''T00:00:00.000Z''))"
  shows "inWindow sel" "notAfter now sel"
proof -
  obtain t where t: "Date_parse (sel @ ''T00:00:00.000Z'') = Some t"
    using assms by (cases "Date_parse (sel @ ''T00:00:00.000Z'')") (simp_all add: isValidDate_def)
  note p = Date_parse_midnight_suffix [OF t]
  have v: "20089 \<le> Day t \<and> Day t \<le> 20453 \<and> Day t \<le> Day now"
    using assms by (simp add: t isValidDate_iff)
  show "inWindow sel"
    using v by (simp add: inWindow_iff [OF p(2) p(1)])
  show "notAfter now sel"
    using v by (simp add: notAfter_def p(2))
qed

lemma okHours_validateAndClampHours: "okHours (validateAndClampHours h)"
proof -
  have "validateAndClampHours h * 2 = 0 \<or> validateAndClampHours h * 2 = 48
      \<or> validateAndClampHours h * 2 = of_int \<lfloor>h * 2 + 1 / 2\<rfloor>"
    by (auto simp: validateAndClampHours_def Math_round_def min_def max_def)
  then have "of_int \<lfloor>validateAndClampHours h * 2\<rfloor> = validateAndClampHours h * 2"
    by (elim disjE) simp_all
  then show ?thesis
    by (simp add: okHours_def validateAndClampHours_range)
qed

lemma setEntryHours_dates:
  "map date (entries (setEntryHours s d h))
     = (if d \<in> set (map date (entries s)) then map date (entries s)
        else map date (entries s) @ [d])"
proof (cases "findIndex (\<lambda>entry. date entry = d) (entries s)")
  case None
  then have "d \<notin> set (map date (entries s))"
    by (auto simp: findIndex_None)
  then show ?thesis
    using None by (simp add: setEntryHours_def)
next
  case (Some i)
  note f = findIndex_Some [OF Some]
  then have "d \<in> set (map date (entries s))"
    by (metis (mono_tags, lifting) image_eqI nth_mem set_map)
  moreover have "map date ((entries s)[i := (entries s ! i)\<lparr>hours := h\<rparr>]) = map date (entries s)"
    using f by (simp add: map_update list_update_same_conv)
  ultimately show ?thesis
    using Some by (simp add: setEntryHours_def)
qed

lemma setEntryHours_members:
  assumes "e \<in> set (entries (setEntryHours s d h))"
  shows "e \<in> set (entries s) \<or> (date e = d \<and> hours e = h)"
proof (cases "findIndex (\<lambda>entry. date entry = d) (entries s)")
  case None
  with assms show ?thesis
    by (auto simp: setEntryHours_def)
next
  case (Some i)
  note f = findIndex_Some [OF Some]
  have "e \<in> insert ((entries s ! i)\<lparr>hours := h\<rparr>) (set (entries s))"
    using assms Some set_update_subset_insert [of "entries s" i] by (auto simp: setEntryHours_def)
  then show ?thesis
    using f by auto
qed

lemma valid_ledger_setEntryHours:
  assumes "valid_ledger now (entries s)" "okHours h" "inWindow d" "notAfter now d"
  shows "valid_ledger now (entries (setEntryHours s d h))"
proof -
  have "I1 (entries (setEntryHours s d h))"
    using assms(1,2) setEntryHours_members [of _ s d h]
    unfolding I1_def valid_ledger_def okHours_def by blast
  moreover have "I2 (entries (setEntryHours s d h))"
    using assms(1) by (simp add: I2_def valid_ledger_def setEntryHours_dates)
  moreover have "I3 (entries (setEntryHours s d h))"
    using assms(1,3) setEntryHours_members [of _ s d h]
    unfolding I3_def valid_ledger_def by blast
  moreover have "I4 now (entries (setEntryHours s d h))"
    using assms(1,4) setEntryHours_members [of _ s d h]
    unfolding I4_def valid_ledger_def by blast
  ultimately show ?thesis
    by (simp add: valid_ledger_def)
qed

lemma valid_ledger_filter:
  assumes "valid_ledger now es"
  shows "valid_ledger now (filter P es)"
  using assms
  by (auto simp: valid_ledger_def I1_def I2_def I3_def I4_def distinct_map_filter)

lemma valid_ledger_reduce:
  assumes "valid_ledger now es"
  shows "I2 (map (\<lambda>entry. if date entry = d then entry\<lparr>hours := hours entry - a\<rparr> else entry) es)"
    and "I3 (map (\<lambda>entry. if date entry = d then entry\<lparr>hours := hours entry - a\<rparr> else entry) es)"
    and "I4 now (map (\<lambda>entry. if date entry = d then entry\<lparr>hours := hours entry - a\<rparr> else entry) es)"
proof -
  have dates: "map date (map (\<lambda>entry. if date entry = d then entry\<lparr>hours := hours entry - a\<rparr> else entry) es)
      = map date es"
    by (simp add: comp_def if_distrib [of date] cong: if_cong)
  show "I2 (map (\<lambda>entry. if date entry = d then entry\<lparr>hours := hours entry - a\<rparr> else entry) es)"
    using assms unfolding I2_def valid_ledger_def dates by simp
  show "I3 (map (\<lambda>entry. if date entry = d then entry\<lparr>hours := hours entry - a\<rparr> else entry) es)"
    using assms by (auto simp: I3_def valid_ledger_def)
  show "I4 now (map (\<lambda>entry. if date entry = d then entry\<lparr>hours := hours entry - a\<rparr> else entry) es)"
    using assms by (auto simp: I4_def valid_ledger_def)
qed

lemma Day_setUTCHours_noon [simp]: "Day (setUTCHours t 12 0 0 0) = Day t"
  by (simp add: Day_def setUTCHours_def msPerDay_def msPerHour_def)

lemma toISODate_cong: "Day t = Day t' \<Longrightarrow> toISODate t = toISODate t'"
  by (simp add: toISODate_def)

lemma toISODate_2025:
  assumes "20089 \<le> Day t" "Day t \<le> 20453"
  shows "Date_parse (toISODate t) = Some (Day t * msPerDay)"
    and "length (toISODate t) = 10"
    and "inWindow (toISODate t)"
    and "Day t \<le> Day now \<Longrightarrow> notAfter now (toISODate t)"
proof -
  have y: "YearFromDay (Day t) = 2025"
    using assms by (intro YearFromDay_unique) (simp_all add: year2025_days)
  show p: "Date_parse (toISODate t) = Some (Day t * msPerDay)"
    by (rule Date_parse_toISODate(2)) (simp_all add: y)
  show l: "length (toISODate t) = 10"
    by (subst Date_parse_toISODate(1)) (simp_all add: y)
  show "inWindow (toISODate t)"
    using assms by (simp add: inWindow_iff [OF p l])
  show "Day t \<le> Day now \<Longrightarrow> notAfter now (toISODate t)"
    by (simp add: notAfter_def p)
qed

lemma year_le_2025: "YearFromDay d \<le> 2025 \<Longrightarrow> d \<le> 20453"
proof -
  assume "YearFromDay d \<le> 2025"
  then have "DayFromYear (YearFromDay d + 1) \<le> DayFromYear 2026"
    by (intro DayFromYear_mono) simp
  with YearFromDay_bounds(2) [of d] show ?thesis
    by (simp add: year2025_days)
qed

lemma valid_ledger_addToDate:
  assumes "valid_ledger now (entries s)" "inWindow d" "notAfter now d"
  shows "valid_ledger now (entries (addToDate s d amount))"
    and "error (addToDate s d amount) = error s \<or> entries (addToDate s d amount) = entries s"
proof -
  show "valid_ledger now (entries (addToDate s d amount))"
    using assms valid_ledger_setEntryHours [OF assms(1) okHours_validateAndClampHours assms(2,3)]
    by (simp add: addToDate_def Let_def)
  show "error (addToDate s d amount) = error s \<or> entries (addToDate s d amount) = entries s"
    by (simp add: addToDate_def Let_def setEntryHours_fields)
qed

lemma valid_ledger_quickAdd:
  assumes "valid_ledger now (entries s)"
  shows "YearFromDay (Day now) \<le> 2025 \<Longrightarrow> valid_ledger now (entries (quickAdd now s amount))"
    and "error (quickAdd now s amount) = error s \<or> entries (quickAdd now s amount) = entries s"
proof -
  show "valid_ledger now (entries (quickAdd now s amount))" if "YearFromDay (Day now) \<le> 2025"
  proof (cases "now < 1735689600000")
    case True
    then show ?thesis
      using assms by (simp add: quickAdd_guard)
  next
    case False
    then have lo: "20089 \<le> Day now"
      by (simp add: Day_def msPerDay_def)
    have hi: "Day now \<le> 20453"
      using that by (rule year_le_2025)
    show ?thesis
      using False
        valid_ledger_addToDate(1) [OF assms toISODate_2025(3) [OF lo hi] toISODate_2025(4) [OF lo hi]]
      by (simp add: quickAdd_guard)
  qed
  show "error (quickAdd now s amount) = error s \<or> entries (quickAdd now s amount) = entries s"
    using valid_ledger_addToDate(2) [OF assms, of "toISODate now" amount]
    by (auto simp: quickAdd_guard addToDate_def Let_def setEntryHours_fields)
qed

lemma valid_ledger_quickAddForDate:
  assumes "valid_ledger now (entries s)"
  shows "valid_ledger now (entries (quickAddForDate now s d hrs))"
    and "error (quickAddForDate now s d hrs) = error s
         \<or> entries (quickAddForDate now s d hrs) = entries s"
proof -
  show "valid_ledger now (entries (quickAddForDate now s d hrs))"
  proof (cases "Date_parse d")
    case None
    then show ?thesis
      using assms by (simp add: quickAddForDate_def isValidDate_def)
  next
    case (Some t)
    show ?thesis
    proof (cases "isValidDate now (Some (setUTCHours t 12 0 0 0))")
      case False
      then show ?thesis
        using assms Some by (simp add: quickAddForDate_def)
    next
      case True
      then have b: "20089 \<le> Day t" "Day t \<le> 20453" "Day t \<le> Day now"
        by (simp_all add: isValidDate_iff)
      have f: "formatDate (setUTCHours t 12 0 0 0) = toISODate t"
        unfolding formatDate_def by (rule toISODate_cong) simp
      have "valid_ledger now (entries (addToDate s (toISODate t) hrs))"
        using assms toISODate_2025(3) [OF b(1,2)] toISODate_2025(4) [OF b(1,2) b(3)]
        by (rule valid_ledger_addToDate(1))
      then show ?thesis
        using True Some by (simp add: quickAddForDate_def f)
    qed
  qed
  show "error (quickAddForDate now s d hrs) = error s
         \<or> entries (quickAddForDate now s d hrs) = entries s"
    by (auto simp: quickAddForDate_def addToDate_def Let_def setEntryHours_fields
        split: option.splits bool.splits)
qed

lemma valid_ledger_handleSubmit:
  assumes "valid_ledger now (entries s)"
  shows "valid_ledger now (entries (handleSubmit now s sel hoursNum))"
    and "error (handleSubmit now s sel hoursNum) = error s
         \<or> entries (handleSubmit now s sel hoursNum) = entries s"
proof -
  show "valid_ledger now (entries (handleSubmit now s sel hoursNum))"
  proof (cases hoursNum)
    case None
    then show ?thesis
      using assms by (simp add: handleSubmit_def)
  next
    case (Some h)
    show ?thesis
    proof (cases "isValidDate now (Date_parse (sel @ ''T00:00:00.000Z''))")
      case False
      then show ?thesis
        using assms Some by (simp add: handleSubmit_def Let_def)
    next
      case True
      have "valid_ledger now (entries (setEntryHours s sel (validateAndClampHours h)))"
        using assms okHours_validateAndClampHours isValidDate_selected [OF True]
        by (rule valid_ledger_setEntryHours)
      then show ?thesis
        using assms Some True by (simp add: handleSubmit_def Let_def)
    qed
  qed
  show "error (handleSubmit now s sel hoursNum) = error s
         \<or> entries (handleSubmit now s sel hoursNum) = entries s"
    by (auto simp: handleSubmit_def Let_def setEntryHours_fields split: option.splits)
qed

lemma half_multiple_diff:
  fixes x a :: real
  assumes "of_int \<lfloor>x * 2\<rfloor> = x * 2" "of_int \<lfloor>a * 2\<rfloor> = a * 2"
  shows "of_int \<lfloor>(x - a) * 2\<rfloor> = (x - a) * 2"
proof -
  have "(x - a) * 2 = x * 2 - a * 2"
    by (simp add: algebra_simps)
  also have "\<dots> = of_int \<lfloor>x * 2\<rfloor> - of_int \<lfloor>a * 2\<rfloor>"
    by (simp only: assms)
  also have "\<dots> = of_int (\<lfloor>x * 2\<rfloor> - \<lfloor>a * 2\<rfloor>)"
    by simp
  finally show ?thesis
    by (metis floor_of_int)
qed

lemma valid_ledger_deleteEntry:
  assumes "valid_ledger now (entries s)"
  shows "I2 (entries (deleteEntry s d amount))"
    and "I3 (entries (deleteEntry s d amount))"
    and "I4 now (entries (deleteEntry s d amount))"
    and "amount = None \<or> (\<exists>a. amount = Some a \<and> 0 \<le> a \<and> of_int \<lfloor>a * 2\<rfloor> = a * 2)
         \<Longrightarrow> I1 (entries (deleteEntry s d amount))"
proof -
  note f = valid_ledger_filter [OF assms, of "\<lambda>entry. date entry \<noteq> d"]
  note r = valid_ledger_reduce [OF assms]
  show "I2 (entries (deleteEntry s d amount))"
    using assms f r(1) by (auto simp: deleteEntry_def valid_ledger_def split: option.splits)
  show "I3 (entries (deleteEntry s d amount))"
    using assms f r(2) by (auto simp: deleteEntry_def valid_ledger_def split: option.splits)
  show "I4 now (entries (deleteEntry s d amount))"
    using assms f r(3) by (auto simp: deleteEntry_def valid_ledger_def split: option.splits)
  show "I1 (entries (deleteEntry s d amount))"
    if ok: "amount = None \<or> (\<exists>a. amount = Some a \<and> 0 \<le> a \<and> of_int \<lfloor>a * 2\<rfloor> = a * 2)"
  proof (cases "find (\<lambda>entry. date entry = d) (entries s)")
    case None
    then show ?thesis
      using assms by (simp add: deleteEntry_def valid_ledger_def)
  next
    case (Some x)
    then have x: "x \<in> set (entries s)" "date x = d"
      by (auto simp: find_Some_iff)
    have only: "e = x" if "e \<in> set (entries s)" "date e = d" for e
      using assms x that unfolding valid_ledger_def I2_def
      by (metis distinct_map inj_onD)
    show ?thesis
    proof (cases "\<exists>a. amount = Some a \<and> a \<noteq> 0 \<and> a < hours x")
      case False
      then have "entries (deleteEntry s d amount) = filter (\<lambda>entry. date entry \<noteq> d) (entries s)"
        using Some by (auto simp: deleteEntry_def split: option.splits)
      then show ?thesis
        using f by (simp add: valid_ledger_def)
    next
      case True
      then obtain a where a: "amount = Some a" "a \<noteq> 0" "a < hours x"
        by blast
      with ok have a2: "0 < a" "of_int \<lfloor>a * 2\<rfloor> = a * 2"
        by auto
      have eq: "entries (deleteEntry s d amount)
          = map (\<lambda>entry. if date entry = d then entry\<lparr>hours := hours entry - a\<rparr> else entry)
              (entries s)"
        using Some a by (simp add: deleteEntry_def)
      have "0 \<le> hours e - a \<and> hours e - a \<le> 24
          \<and> of_int \<lfloor>(hours e - a) * 2\<rfloor> = (hours e - a) * 2"
        if "e \<in> set (entries s)" "date e = d" for e
      proof -
        have "e = x"
          using that by (rule only)
        moreover have "0 \<le> hours x" "hours x \<le> 24" "of_int \<lfloor>hours x * 2\<rfloor> = hours x * 2"
          using assms x(1) by (auto simp: valid_ledger_def I1_def)
        ultimately show ?thesis
          using a(3) a2 half_multiple_diff [of "hours x" a] by simp
      qed
      then show ?thesis
        using assms unfolding eq I1_def valid_ledger_def by auto
    qed
  qed
qed

section \<open>Every mutation and the invariants\<close>

lemma sample_ledger_valid:
  "valid_ledger 1762106400000 [\<lparr>date = ''2025-01-05'', hours = 5\<rparr>]"
proof -
  have p: "Date_parse ''2025-01-05'' = Some 1736035200000"
    by code_simp
  show ?thesis
    by (simp add: valid_ledger_def I1_def I2_def I3_def I4_def inWindow_def notAfter_def p
        window_bounds date_le_def Day_def msPerDay_def)
qed

text \<open>
  C2 (as the program has it). From a ledger that satisfies I1 to I4 at the time \<open>now\<close>:
  \<^item> \<open>handleSubmit\<close> (setHours) and \<open>quickAddForDate\<close> return a ledger that satisfies I1
    to I4, for every input;
  \<^item> \<open>quickAdd\<close> does so whenever today's UTC year is at most 2025;
  \<^item> \<open>deleteEntry\<close> does so when the amount is omitted or is a non-negative multiple
    of 0.5 (whichever branch, full or partial, it takes), and for every amount it
    keeps I2, I3 and I4 and raises no error;
  \<^item> each of the three writing operations either leaves \<open>error\<close> as it was or leaves
    the entries as they were: an error is never reported together with a change.
\<close>

theorem mutations_preserve_invariants:
  assumes "valid_ledger now (entries s)"
  shows "valid_ledger now (entries (handleSubmit now s sel hoursNum))
       \<and> (error (handleSubmit now s sel hoursNum) = error s
            \<or> entries (handleSubmit now s sel hoursNum) = entries s)
       \<and> valid_ledger now (entries (quickAddForDate now s d hrs))
       \<and> (error (quickAddForDate now s d hrs) = error s
            \<or> entries (quickAddForDate now s d hrs) = entries s)
       \<and> (YearFromDay (Day now) \<le> 2025 \<longrightarrow> valid_ledger now (entries (quickAdd now s delta)))
       \<and> (error (quickAdd now s delta) = error s \<or> entries (quickAdd now s delta) = entries s)
       \<and> valid_ledger now (entries (deleteEntry s d None))
       \<and> (0 \<le> a \<and> of_int \<lfloor>a * 2\<rfloor> = a * 2 \<longrightarrow>
            valid_ledger now (entries (deleteEntry s d (Some a))))
       \<and> I2 (entries (deleteEntry s d amount))
       \<and> I3 (entries (deleteEntry s d amount))
       \<and> I4 now (entries (deleteEntry s d amount))
       \<and> error (deleteEntry s d amount) = error s"
proof -
  note del = valid_ledger_deleteEntry [OF assms]
  have "valid_ledger now (entries (deleteEntry s d None))"
    using del(1-3) [of d None] del(4) [of None d] by (simp add: valid_ledger_def)
  moreover have "valid_ledger now (entries (deleteEntry s d (Some a)))"
    if "0 \<le> a \<and> of_int \<lfloor>a * 2\<rfloor> = a * 2"
    using that del(1-3) [of d "Some a"] del(4) [of "Some a" d] by (simp add: valid_ledger_def)
  moreover have "error (deleteEntry s d amount) = error s"
    by (simp add: deleteEntry_def split: option.splits)
  ultimately show ?thesis
    using valid_ledger_handleSubmit [OF assms, of sel hoursNum]
      valid_ledger_quickAddForDate [OF assms, of d hrs]
      valid_ledger_quickAdd [OF assms, of delta]
      del(1-3) [of d amount]
    by blast
qed

theorem mutations_preserve_invariants_witness:
  "valid_ledger 1762106400000
     (entries (handleSubmit 1762106400000
        \<lparr>entries = [\<lparr>date = ''2025-01-05'', hours = 5\<rparr>], error = None, alert = None,
           dateRange = (None, None)\<rparr> ''2025-03-09'' (Some 3)))
   \<and> valid_ledger 1762106400000
     (entries (quickAdd 1762106400000
        \<lparr>entries = [\<lparr>date = ''2025-01-05'', hours = 5\<rparr>], error = None, alert = None,
           dateRange = (None, None)\<rparr> (1 / 2)))
   \<and> valid_ledger 1762106400000
     (entries (deleteEntry
        \<lparr>entries = [\<lparr>date = ''2025-01-05'', hours = 5\<rparr>], error = None, alert = None,
           dateRange = (None, None)\<rparr> ''2025-01-05'' (Some 2)))"
proof -
  have v: "valid_ledger 1762106400000
      (entries \<lparr>entries = [\<lparr>date = ''2025-01-05'', hours = 5\<rparr>], error = None, alert = None,
           dateRange = (None, None)\<rparr>)"
    using sample_ledger_valid by simp
  have y: "YearFromDay (Day 1762106400000) \<le> 2025"
    by code_simp
  show ?thesis
    using mutations_preserve_invariants [OF v, of "''2025-03-09''" "Some 3" _ _ "1 / 2" 2] y
    by simp
qed

text \<open>
  The claim as stated fails for a partial deletion by an amount that is not a multiple
  of 0.5: \<open>deleteEntry\<close> validates nothing, reports no error, and leaves 4.75 hours.
\<close>

theorem partial_delete_breaks_half_hours:
  "valid_ledger 1762106400000
     (entries \<lparr>entries = [\<lparr>date = ''2025-01-05'', hours = 5\<rparr>], error = None, alert = None,
           dateRange = (None, None)\<rparr>)
   \<and> entries (deleteEntry
        \<lparr>entries = [\<lparr>date = ''2025-01-05'', hours = 5\<rparr>], error = None, alert = None,
           dateRange = (None, None)\<rparr> ''2025-01-05'' (Some (1 / 4)))
       = [\<lparr>date = ''2025-01-05'', hours = 19 / 4\<rparr>]
   \<and> error (deleteEntry
        \<lparr>entries = [\<lparr>date = ''2025-01-05'', hours = 5\<rparr>], error = None, alert = None,
           dateRange = (None, None)\<rparr> ''2025-01-05'' (Some (1 / 4))) = None
   \<and> \<not> valid_ledger 1762106400000
     (entries (deleteEntry
        \<lparr>entries = [\<lparr>date = ''2025-01-05'', hours = 5\<rparr>], error = None, alert = None,
           dateRange = (None, None)\<rparr> ''2025-01-05'' (Some (1 / 4))))"
  using sample_ledger_valid
  by (simp add: deleteEntry_def valid_ledger_def I1_def)

text \<open>
  \<open>quickAdd\<close> checks only the lower end of the window: after 2025 it records today's
  date, which lies outside the window of I3.
\<close>

lemma today_20261102: "toISODate 1793642400000 = ''2026-11-02''"
  by code_simp

lemma quickAdd_after_2025_leaves_window:
  "entries (quickAdd 1793642400000
     \<lparr>entries = [], error = None, alert = None, dateRange = (None, None)\<rparr> 1)
     = [\<lparr>date = ''2026-11-02'', hours = 1\<rparr>]
   \<and> \<not> valid_ledger 1793642400000 (entries (quickAdd 1793642400000
     \<lparr>entries = [], error = None, alert = None, dateRange = (None, None)\<rparr> 1))"
proof -
  have p: "Date_parse ''2026-11-02'' = Some 1793577600000"
    by code_simp
  have v: "validateAndClampHours 1 = 1"
    by (simp add: validateAndClampHours_def Math_round_def)
  have "quickAdd 1793642400000
     \<lparr>entries = [], error = None, alert = None, dateRange = (None, None)\<rparr> 1
     = \<lparr>entries = [\<lparr>date = ''2026-11-02'', hours = 1\<rparr>], error = None, alert = None,
        dateRange = (None, None)\<rparr>"
    by (simp add: quickAdd_guard today_20261102 addToDate_def getHoursForDate_def v
        setEntryHours_def)
  then show ?thesis
    by (simp add: valid_ledger_def I3_def inWindow_def p window_bounds date_le_def msPerDay_def)
qed

section \<open>Range totals\<close>

lemma foldl_hours: "foldl (\<lambda>sum entry. sum + hours entry) acc es = acc + sum_list (map hours es)"
  by (induction es arbitrary: acc) simp_all

lemma validateDateRange_days:
  assumes "Date_parse a = Some ta" "length a = 10" "Date_parse b = Some tb" "length b = 10"
  shows "validateDateRange a b \<longleftrightarrow> \<bar>Day tb - Day ta\<bar> \<le> 365"
proof -
  define ka kb where "ka = Day ta" and "kb = Day tb"
  have ta: "ta = ka * 86400000"
    using Date_parse_date_only [OF assms(1,2)] by (simp add: ka_def msPerDay_def)
  have tb: "tb = kb * 86400000"
    using Date_parse_date_only [OF assms(3,4)] by (simp add: kb_def msPerDay_def)
  have "tb - ta = (kb - ka) * 86400000"
    unfolding ta tb by (simp add: algebra_simps)
  then have "\<bar>tb - ta\<bar> = \<bar>(kb - ka) * 86400000\<bar>"
    by (simp only:)
  also have "\<dots> = \<bar>kb - ka\<bar> * 86400000"
    by (simp only: abs_mult abs_numeral)
  finally have "\<bar>tb - ta\<bar> = \<bar>kb - ka\<bar> * 86400000" .
  then have "(of_int \<bar>tb - ta\<bar> :: real) / of_int (1000 * 60 * 60 * 24) = of_int \<bar>kb - ka\<bar>"
    by simp
  then have "\<lceil>(of_int \<bar>tb - ta\<bar> :: real) / of_int (1000 * 60 * 60 * 24)\<rceil> = \<bar>kb - ka\<bar>"
    by (simp only: ceiling_of_int)
  then show ?thesis
    unfolding validateDateRange_def assms Let_def ka_def kb_def by simp
qed

lemma validateDateRange_sym: "validateDateRange a b = validateDateRange b a"
  by (auto simp: validateDateRange_def Let_def abs_minus_commute split: option.splits)

lemma getHoursBetweenDates_reversed:
  assumes "b < a"
  shows "fst (getHoursBetweenDates s a b) = 0"
proof -
  have "filter (\<lambda>entry. a \<le> date entry \<and> date entry \<le> b) (entries s) = []"
    using assms by (auto simp: filter_empty_conv)
  then show ?thesis
    by (simp add: getHoursBetweenDates_def)
qed

lemma selectRangeEnd_sym: "selectRangeEnd s a b = selectRangeEnd s b a"
proof (cases "a = b")
  case True
  then show ?thesis by simp
next
  case False
  then consider "a < b" | "b < a"
    by (meson linorder_neqE)
  then show ?thesis
  proof cases
    case 1
    then have "\<not> b < a" by simp
    with 1 show ?thesis by (simp add: selectRangeEnd_def)
  next
    case 2
    then have "\<not> a < b" by simp
    with 2 show ?thesis by (simp add: selectRangeEnd_def)
  qed
qed

lemma selectRangeEnd_dateRange:
  "selectRangeEnd (s\<lparr>dateRange := r\<rparr>) a b = selectRangeEnd s a b"
  by (simp add: selectRangeEnd_def getHoursBetweenDates_def Let_def split: prod.splits if_splits)

text \<open>
  C5 (as the program has it). \<open>getHoursBetweenDates\<close> does not normalise its endpoints:
  called with \<open>end < start\<close> it returns 0, since no date lies in the empty interval.
  The endpoints are put in order by its caller, the calendar's click handler
  (\<open>selectDate\<close>, whose second click is \<open>selectRangeEnd\<close>), which swaps them when
  \<open>start > end\<close> before it validates the range and calls \<open>getHoursBetweenDates\<close>. The
  result of selecting a range is therefore the same whichever endpoint is clicked
  first: the same state, with the range stored in order and, for a valid range, the
  total of the records with \<open>min \<le> date \<le> max\<close> in the alert.
\<close>

theorem selectDate_symmetric:
  assumes "a \<noteq> []" "b \<noteq> []"
  shows "selectDate (s\<lparr>dateRange := (Some a, None)\<rparr>) b
           = selectDate (s\<lparr>dateRange := (Some b, None)\<rparr>) a
       \<and> selectDate (s\<lparr>dateRange := (Some a, None)\<rparr>) b = selectRangeEnd s a b
       \<and> selectRangeEnd s a b = selectRangeEnd s b a
       \<and> (validateDateRange (min a b) (max a b) \<longrightarrow>
            error (selectRangeEnd s a b) = error s
          \<and> dateRange (selectRangeEnd s a b) = (Some (min a b), Some (max a b))
          \<and> alert (selectRangeEnd s a b)
              = Some (if 0 < sum_list (map hours
                            (filter (\<lambda>entry. min a b \<le> date entry \<and> date entry \<le> max a b)
                               (entries s)))
                      then CodedBetween
                             (sum_list (map hours
                                (filter (\<lambda>entry. min a b \<le> date entry \<and> date entry \<le> max a b)
                                   (entries s))))
                             (min a b) (max a b)
                      else NoHoursInRange))
       \<and> (b < a \<longrightarrow> fst (getHoursBetweenDates s a b) = 0)"
proof (intro conjI impI)
  show 1: "selectDate (s\<lparr>dateRange := (Some a, None)\<rparr>) b = selectRangeEnd s a b"
    using assms by (simp add: selectDate_def selectRangeEnd_dateRange)
  have 2: "selectDate (s\<lparr>dateRange := (Some b, None)\<rparr>) a = selectRangeEnd s b a"
    using assms by (simp add: selectDate_def selectRangeEnd_dateRange)
  show "selectDate (s\<lparr>dateRange := (Some a, None)\<rparr>) b
      = selectDate (s\<lparr>dateRange := (Some b, None)\<rparr>) a"
    unfolding 1 2 by (rule selectRangeEnd_sym)
  show "selectRangeEnd s a b = selectRangeEnd s b a"
    by (rule selectRangeEnd_sym)
  show "fst (getHoursBetweenDates s a b) = 0" if "b < a"
    using that by (rule getHoursBetweenDates_reversed)
next
  assume v: "validateDateRange (min a b) (max a b)"
  have ne: "min a b \<noteq> []" "max a b \<noteq> []"
    using assms by (simp_all add: min_def max_def)
  have sw: "(if b < a then (b, a) else (a, b)) = (min a b, max a b)"
    by (auto simp: min_def max_def)
  have eq: "selectRangeEnd s a b
      = (let hrs = sum_list (map hours
                     (filter (\<lambda>entry. min a b \<le> date entry \<and> date entry \<le> max a b) (entries s)))
         in if 0 < hrs
            then s\<lparr>dateRange := (Some (min a b), Some (max a b)),
                   alert := Some (CodedBetween hrs (min a b) (max a b))\<rparr>
            else s\<lparr>dateRange := (Some (min a b), Some (max a b)),
                   alert := Some NoHoursInRange\<rparr>)"
    using v ne unfolding selectRangeEnd_def sw
    by (simp add: getHoursBetweenDates_def foldl_hours Let_def)
  show "error (selectRangeEnd s a b) = error s"
    by (simp add: eq Let_def)
  show "dateRange (selectRangeEnd s a b) = (Some (min a b), Some (max a b))"
    by (simp add: eq Let_def)
  show "alert (selectRangeEnd s a b)
      = Some (if 0 < sum_list (map hours
                    (filter (\<lambda>entry. min a b \<le> date entry \<and> date entry \<le> max a b)
                       (entries s)))
              then CodedBetween
                     (sum_list (map hours
                        (filter (\<lambda>entry. min a b \<le> date entry \<and> date entry \<le> max a b)
                           (entries s))))
                     (min a b) (max a b)
              else NoHoursInRange)"
    by (simp add: eq Let_def)
qed

lemma sample_range:
  "validateDateRange ''2025-01-01'' ''2025-01-03''"
proof -
  have "Date_parse ''2025-01-01'' = Some 1735689600000" "Date_parse ''2025-01-03'' = Some 1735862400000"
    by code_simp+
  then show ?thesis
    by (simp add: validateDateRange_def)
qed

theorem selectDate_symmetric_witness:
  "selectDate \<lparr>entries = [\<lparr>date = ''2025-01-02'', hours = 5\<rparr>], error = None, alert = None,
       dateRange = (Some ''2025-01-03'', None)\<rparr> ''2025-01-01''
     = \<lparr>entries = [\<lparr>date = ''2025-01-02'', hours = 5\<rparr>], error = None,
        alert = Some (CodedBetween 5 ''2025-01-01'' ''2025-01-03''),
        dateRange = (Some ''2025-01-01'', Some ''2025-01-03'')\<rparr>
   \<and> selectDate \<lparr>entries = [\<lparr>date = ''2025-01-02'', hours = 5\<rparr>], error = None, alert = None,
       dateRange = (Some ''2025-01-01'', None)\<rparr> ''2025-01-03''
     = \<lparr>entries = [\<lparr>date = ''2025-01-02'', hours = 5\<rparr>], error = None,
        alert = Some (CodedBetween 5 ''2025-01-01'' ''2025-01-03''),
        dateRange = (Some ''2025-01-01'', Some ''2025-01-03'')\<rparr>"
proof -
  have ne: "''2025-01-03'' \<noteq> []" "''2025-01-01'' \<noteq> []"
    by simp_all
  have m: "min ''2025-01-03'' ''2025-01-01'' = ''2025-01-01''"
    "max ''2025-01-03'' ''2025-01-01'' = ''2025-01-03''"
    by (simp_all add: min_def max_def)
  show ?thesis
    using selectDate_symmetric [OF ne,
        of "\<lparr>entries = [\<lparr>date = ''2025-01-02'', hours = 5\<rparr>], error = None, alert = None,
             dateRange = (None, None)\<rparr>"]
      sample_range
    by (simp add: m selectDate_def selectRangeEnd_def getHoursBetweenDates_def)
qed

text \<open>
  The claim as stated, about \<open>getHoursBetweenDates\<close> itself: in order it returns 5,
  with the endpoints swapped it returns 0.
\<close>

theorem getHoursBetweenDates_not_symmetric:
  "getHoursBetweenDates \<lparr>entries = [\<lparr>date = ''2025-01-02'', hours = 5\<rparr>], error = None,
       alert = None, dateRange = (None, None)\<rparr> ''2025-01-01'' ''2025-01-03''
     = (5, \<lparr>entries = [\<lparr>date = ''2025-01-02'', hours = 5\<rparr>], error = None,
       alert = None, dateRange = (None, None)\<rparr>)
   \<and> getHoursBetweenDates \<lparr>entries = [\<lparr>date = ''2025-01-02'', hours = 5\<rparr>], error = None,
       alert = None, dateRange = (None, None)\<rparr> ''2025-01-03'' ''2025-01-01''
     = (0, \<lparr>entries = [\<lparr>date = ''2025-01-02'', hours = 5\<rparr>], error = None,
       alert = None, dateRange = (None, None)\<rparr>)"
proof -
  have "validateDateRange ''2025-01-03'' ''2025-01-01''"
    using sample_range by (subst validateDateRange_sym)
  then show ?thesis
    using sample_range by (simp add: getHoursBetweenDates_def)
qed

text \<open>
  C6 (as the program has it). For canonical endpoints \<open>YYYY-MM-DD\<close> (years 0 to 9999),
  given in either order, \<open>getHoursBetweenDates\<close> fails, setting the error
  "Date range cannot exceed one year" and returning 0, exactly when the two dates
  are more than 365 days apart, whatever the records; otherwise it raises no error and
  returns the sum of the hours of the records whose date string lies between the
  endpoints, both included, in the lexicographic order of strings, which on canonical
  record dates is the order of the dates (\<open>ymd_order_is_date_order\<close>). An ordered range
  is thus refused when its inclusive span exceeds 366 days, not 365: the check measures
  the difference of the endpoints.
\<close>

theorem getHoursBetweenDates_range_check:
  assumes "0 \<le> y1" "y1 \<le> 9999" "1 \<le> m1" "m1 \<le> 12" "1 \<le> d1" "d1 \<le> DaysInMonth y1 (m1 - 1)"
    and "0 \<le> y2" "y2 \<le> 9999" "1 \<le> m2" "m2 \<le> 12" "1 \<le> d2" "d2 \<le> DaysInMonth y2 (m2 - 1)"
  shows "getHoursBetweenDates s (ymd y1 m1 d1) (ymd y2 m2 d2)
       = (if 365 < \<bar>MakeDay y2 (m2 - 1) d2 - MakeDay y1 (m1 - 1) d1\<bar>
          then (0, s\<lparr>error := Some ''Date range cannot exceed one year''\<rparr>)
          else (sum_list (map hours
                  (filter (\<lambda>entry. ymd y1 m1 d1 \<le> date entry \<and> date entry \<le> ymd y2 m2 d2)
                     (entries s))), s))"
proof -
  have p1: "Date_parse (ymd y1 m1 d1) = Some (MakeDay y1 (m1 - 1) d1 * msPerDay)"
    using assms(1-6) by (rule Date_parse_ymd(1))
  have p2: "Date_parse (ymd y2 m2 d2) = Some (MakeDay y2 (m2 - 1) d2 * msPerDay)"
    using assms(7-12) by (rule Date_parse_ymd(1))
  have v: "validateDateRange (ymd y1 m1 d1) (ymd y2 m2 d2)
      \<longleftrightarrow> \<bar>MakeDay y2 (m2 - 1) d2 - MakeDay y1 (m1 - 1) d1\<bar> \<le> 365"
    using validateDateRange_days [OF p1 length_ymd p2 length_ymd] by simp
  have ne: "ymd y1 m1 d1 \<noteq> []" "ymd y2 m2 d2 \<noteq> []"
    by (simp_all add: ymd_def)
  show ?thesis
    using ne by (simp add: getHoursBetweenDates_def v foldl_hours not_le)
qed

theorem getHoursBetweenDates_range_check_witness:
  "getHoursBetweenDates \<lparr>entries = [\<lparr>date = ''2025-01-02'', hours = 5\<rparr>], error = None,
       alert = None, dateRange = (None, None)\<rparr> ''2025-01-01'' ''2025-01-03''
     = (5, \<lparr>entries = [\<lparr>date = ''2025-01-02'', hours = 5\<rparr>], error = None,
       alert = None, dateRange = (None, None)\<rparr>)
   \<and> getHoursBetweenDates \<lparr>entries = [\<lparr>date = ''2025-01-02'', hours = 5\<rparr>], error = None,
       alert = None, dateRange = (None, None)\<rparr> ''2024-01-01'' ''2025-01-03''
     = (0, \<lparr>entries = [\<lparr>date = ''2025-01-02'', hours = 5\<rparr>],
       error = Some ''Date range cannot exceed one year'',
       alert = None, dateRange = (None, None)\<rparr>)"
proof -
  have s: "ymd 2025 1 1 = ''2025-01-01''" "ymd 2025 1 3 = ''2025-01-03''"
    "ymd 2024 1 1 = ''2024-01-01''"
    by code_simp+
  have k: "MakeDay 2025 0 1 = 20089" "MakeDay 2025 0 3 = 20091" "MakeDay 2024 0 1 = 19723"
    by (simp_all add: MakeDay_def DayOfMonthStart_def DayFromYear_def)
  have pre: "(0::int) \<le> 2025" "(2025::int) \<le> 9999" "(0::int) \<le> 2024" "(2024::int) \<le> 9999"
    "(1::int) \<le> 1" "(1::int) \<le> 12" "1 \<le> DaysInMonth 2025 (1 - 1)" "1 \<le> DaysInMonth 2024 (1 - 1)"
    "(1::int) \<le> 3" "3 \<le> DaysInMonth 2025 (1 - 1)"
    by (simp_all add: DaysInMonth_def)
  show ?thesis
    using getHoursBetweenDates_range_check [OF pre(1,2,5,6,5,7) pre(1,2,5,6,9,10),
        of "\<lparr>entries = [\<lparr>date = ''2025-01-02'', hours = 5\<rparr>], error = None,
              alert = None, dateRange = (None, None)\<rparr>"]
      getHoursBetweenDates_range_check [OF pre(3,4,5,6,5,8) pre(1,2,5,6,9,10),
        of "\<lparr>entries = [\<lparr>date = ''2025-01-02'', hours = 5\<rparr>], error = None,
              alert = None, dateRange = (None, None)\<rparr>"]
    by (simp add: s k)
qed

text \<open>
  The claim as stated fails on the range from 2025-01-01 to 2026-01-01, whose inclusive
  span is 366 days: it is accepted and summed.
\<close>

theorem range_of_366_days_accepted:
  "MakeDay 2026 0 1 - MakeDay 2025 0 1 + 1 = 366
   \<and> getHoursBetweenDates \<lparr>entries = [\<lparr>date = ''2025-06-01'', hours = 5\<rparr>], error = None,
       alert = None, dateRange = (None, None)\<rparr> ''2025-01-01'' ''2026-01-01''
     = (5, \<lparr>entries = [\<lparr>date = ''2025-06-01'', hours = 5\<rparr>], error = None,
       alert = None, dateRange = (None, None)\<rparr>)"
proof -
  have p: "Date_parse ''2025-01-01'' = Some 1735689600000"
    "Date_parse ''2026-01-01'' = Some 1767225600000"
    by code_simp+
  have "validateDateRange ''2025-01-01'' ''2026-01-01''"
    by (simp add: validateDateRange_def p)
  then show ?thesis
    by (simp add: getHoursBetweenDates_def MakeDay_def DayOfMonthStart_def DayFromYear_def)
qed

section \<open>Hours of the displayed month\<close>

lemma Date_parse_month:
  assumes "Date_parse x = Some t" "length x = 10" "0 \<le> tz" "tz < msPerDay"
  shows "\<exists>m. monthField x = Some m \<and> getMonth tz t = m - 1"
proof -
  from assms(1) obtain y m d ms where f: "parse_digits (take 4 x) = Some y"
      "parse_digits (take 2 (drop 5 x)) = Some m" "parse_digits (take 2 (drop 8 x)) = Some d"
      "parse_time (drop 10 x) = Some ms"
    and v: "1 \<le> m" "m \<le> 12" "1 \<le> d" "d \<le> DaysInMonth y (m - 1)"
    and t: "t = MakeDay y (m - 1) d * msPerDay + ms"
    by (auto simp: Date_parse_def split: if_splits option.splits)
  have "ms = 0"
    using f(4) assms(2) by (simp add: parse_time_def)
  then have "Day (t + tz) = MakeDay y (m - 1) d"
    using assms(3,4) by (simp add: t Day_def msPerDay_def)
  moreover have "MonthFromDay (MakeDay y (m - 1) d) = m - 1"
    using v by (intro civil_of_MakeDay(2)) simp_all
  ultimately show ?thesis
    using f(2) by (simp add: monthField_def getMonth_def)
qed

lemma getCurrentMonthHours_fold:
  assumes "0 \<le> tz" "tz < msPerDay"
    and "\<forall>e \<in> set es. Date_parse (date e) \<noteq> None \<and> length (date e) = 10"
  shows "foldl (\<lambda>sum entry.
             (let entryMonth = map_option (getMonth tz) (Date_parse (date entry))
              in if entryMonth = Some k then sum + hours entry else sum)) acc es
       = acc + sum_list (map hours (filter (\<lambda>e. monthField (date e) = Some (k + 1)) es))"
  using assms(3)
proof (induction es arbitrary: acc)
  case Nil
  then show ?case by simp
next
  case (Cons e es)
  then obtain t where t: "Date_parse (date e) = Some t" and l: "length (date e) = 10"
    by auto
  obtain m where m: "monthField (date e) = Some m" "getMonth tz t = m - 1"
    using Date_parse_month [OF t l assms(1,2)] by blast
  have "(m - 1 = k) = (m = k + 1)"
    by auto
  then show ?case
    using Cons by (simp add: t m)
qed

lemma january_2026: "getFullYear 0 1767225600000 = 2026" "getMonth 0 1767225600000 = 0"
  by code_simp+

text \<open>
  C7 (as the program has it). \<open>tz\<close> is the offset of local time from UTC in
  milliseconds, \<open>currentMonth\<close> the time value of the displayed month, and
  \<open>monthField\<close> the month number written in a date string. In a time zone at or east
  of UTC (\<open>0 \<le> tz < 24 h\<close>), for every ledger of canonical date strings,
  \<open>getCurrentMonthHours\<close> is the sum of the hours of exactly the records whose month
  number is the displayed month's number. The year takes no part: neither the year of
  the records nor the displayed year is read.
\<close>

theorem getCurrentMonthHours_by_month_number:
  assumes "0 \<le> tz" "tz < msPerDay"
    and "\<forall>e \<in> set (entries s). Date_parse (date e) \<noteq> None \<and> length (date e) = 10"
  shows "getCurrentMonthHours tz s currentMonth
       = sum_list (map hours
           (filter (\<lambda>e. monthField (date e) = Some (getMonth tz currentMonth + 1)) (entries s)))"
  using getCurrentMonthHours_fold [OF assms, of "getMonth tz currentMonth" 0]
  by (simp add: getCurrentMonthHours_def Let_def)

theorem getCurrentMonthHours_by_month_number_witness:
  "getCurrentMonthHours 0
     \<lparr>entries = [\<lparr>date = ''2025-01-15'', hours = 3\<rparr>, \<lparr>date = ''2025-02-01'', hours = 4\<rparr>],
        error = None, alert = None, dateRange = (None, None)\<rparr> 1767225600000 = 3"
proof -
  have p: "Date_parse ''2025-01-15'' = Some 1736899200000" "Date_parse ''2025-02-01'' = Some 1738368000000"
    by code_simp+
  have m: "monthField ''2025-01-15'' = Some 1" "monthField ''2025-02-01'' = Some 2"
    by (simp_all add: monthField_def parse_digits_def digit_val_def)
  have pre: "(0::int) \<le> 0" "0 < msPerDay"
    by (simp_all add: msPerDay_def)
  show ?thesis
    using getCurrentMonthHours_by_month_number [OF pre,
        of "\<lparr>entries = [\<lparr>date = ''2025-01-15'', hours = 3\<rparr>, \<lparr>date = ''2025-02-01'', hours = 4\<rparr>],
        error = None, alert = None, dateRange = (None, None)\<rparr>" 1767225600000]
    by (simp add: p m january_2026)
qed

text \<open>
  The claim as stated fails when the displayed year differs from the records' year:
  with January 2026 displayed, a record of January 2025 contributes its 3 hours.
\<close>

theorem getCurrentMonthHours_ignores_year:
  "getFullYear 0 1767225600000 = 2026 \<and> getMonth 0 1767225600000 = 0
   \<and> getCurrentMonthHours 0
     \<lparr>entries = [\<lparr>date = ''2025-01-15'', hours = 3\<rparr>],
        error = None, alert = None, dateRange = (None, None)\<rparr> 1767225600000 = 3"
proof -
  have p: "Date_parse ''2025-01-15'' = Some 1736899200000"
    by code_simp
  have g: "getMonth 0 1736899200000 = 0"
    by code_simp
  show ?thesis
    by (simp add: january_2026 getCurrentMonthHours_def p g)
qed

text \<open>
  West of UTC the local month of a record is read from midnight UTC of its date, which
  is still the previous local day: at UTC-5 a record of 2025-03-01 counts in February
  and not in March.
\<close>

lemma getCurrentMonthHours_west_of_UTC:
  "getMonth (- 18000000) 1740805200000 = 2
   \<and> getCurrentMonthHours (- 18000000)
     \<lparr>entries = [\<lparr>date = ''2025-03-01'', hours = 2\<rparr>],
        error = None, alert = None, dateRange = (None, None)\<rparr> 1740805200000 = 0
   \<and> getMonth (- 18000000) 1738386000000 = 1
   \<and> getCurrentMonthHours (- 18000000)
     \<lparr>entries = [\<lparr>date = ''2025-03-01'', hours = 2\<rparr>],
        error = None, alert = None, dateRange = (None, None)\<rparr> 1738386000000 = 2"
proof -
  have p: "Date_parse ''2025-03-01'' = Some 1740787200000"
    by code_simp
  have g: "getMonth (- 18000000) 1740787200000 = 1" "getMonth (- 18000000) 1740805200000 = 2"
    "getMonth (- 18000000) 1738386000000 = 1"
    by code_simp+
  show ?thesis
    by (simp add: getCurrentMonthHours_def p g)
qed

section \<open>The calendar grid\<close>

lemma Day_noon:
  assumes "- (12 * msPerHour) \<le> tz" "tz < 12 * msPerHour"
  shows "Day (k * msPerDay + 12 * msPerHour + tz) = k"
proof -
  have "0 \<le> 12 * msPerHour + tz" "12 * msPerHour + tz < msPerDay"
    using assms by (simp_all add: msPerHour_def msPerDay_def)
  then have "(k * msPerDay + (12 * msPerHour + tz)) div msPerDay = k"
    by (simp add: msPerDay_def div_pos_pos_trivial)
  then show ?thesis
    by (simp add: Day_def add.assoc)
qed

lemma Date_UTC_year:
  "year < 0 \<or> 99 < year \<Longrightarrow> Date_UTC year m d h = MakeDay year m d * msPerDay + h * msPerHour"
  by (auto simp: Date_UTC_def)

lemma MakeDay_linear: "MakeDay y m k = MakeDay y m 1 + k - 1"
  by (simp add: MakeDay_def Let_def)

lemma InLeapYear_step: "DayFromYear (y + 1) = DayFromYear y + 365 + InLeapYear y"
  by (simp add: DayFromYear_step DaysInYear_leap)

lemma MakeDay_next_month:
  assumes "0 \<le> m" "m < 12"
  shows "MakeDay y (m + 1) k = MakeDay y m k + DaysInMonth y m"
  using month_cases [OF assms] InLeapYear_cases [of y]
  by (elim insertE emptyE disjE;
      simp add: MakeDay_def DayOfMonthStart_def DaysInMonth_def InLeapYear_step)

lemma MakeDay_previous_month:
  assumes "0 \<le> m" "m < 12"
  shows "MakeDay y (m - 1) k = MakeDay y m k - DaysInPreviousMonth y m"
proof -
  have "DayFromYear y = DayFromYear (y - 1) + 365 + InLeapYear (y - 1)"
    using InLeapYear_step [of "y - 1"] by simp
  then show ?thesis
    using month_cases [OF assms] InLeapYear_cases [of y] InLeapYear_cases [of "y - 1"]
    by (elim insertE emptyE disjE;
        simp add: MakeDay_def DayOfMonthStart_def DaysInMonth_def DaysInPreviousMonth_def)
qed

lemma DaysInMonth_bounds:
  assumes "0 \<le> m" "m < 12"
  shows "28 \<le> DaysInMonth y m" "DaysInMonth y m \<le> 31"
  using month_cases [OF assms] InLeapYear_cases [of y]
  by (elim insertE emptyE disjE; simp add: DaysInMonth_def)+

lemma DateFromDay_last:
  assumes "0 \<le> m" "m < 12"
  shows "DateFromDay (MakeDay y (m + 1) 0) = DaysInMonth y m"
proof -
  have "MakeDay y (m + 1) 0 = MakeDay y m (DaysInMonth y m)"
    using MakeDay_next_month [OF assms, of y 0] MakeDay_linear [of y m 0]
      MakeDay_linear [of y m "DaysInMonth y m"] by simp
  moreover have "DateFromDay (MakeDay y m (DaysInMonth y m)) = DaysInMonth y m"
    using assms DaysInMonth_bounds(1) [OF assms, of y] by (intro civil_of_MakeDay(3)) simp_all
  ultimately show ?thesis
    by simp
qed

lemma DateFromDay_before_first:
  assumes "0 \<le> m" "m < 12"
  shows "DateFromDay (MakeDay y m 0) = DaysInPreviousMonth y m"
proof (cases "m = 0")
  case True
  have "MakeDay y 0 0 = MakeDay (y - 1) 11 31"
    using MakeDay_previous_month [of 0 y 31] MakeDay_linear [of y 0 0] MakeDay_linear [of y 0 31]
    by (simp add: DaysInPreviousMonth_def MakeDay_def)
  moreover have "DateFromDay (MakeDay (y - 1) 11 31) = 31"
    by (intro civil_of_MakeDay(3)) (simp_all add: DaysInMonth_def)
  ultimately show ?thesis
    using True by (simp add: DaysInPreviousMonth_def)
next
  case False
  then have m1: "0 \<le> m - 1" "m - 1 < 12"
    using assms by simp_all
  have "MakeDay y m 0 = MakeDay y (m - 1) (DaysInMonth y (m - 1))"
    using MakeDay_previous_month [OF assms, of y "DaysInMonth y (m - 1)"] False
      MakeDay_linear [of y m 0] MakeDay_linear [of y m "DaysInMonth y (m - 1)"]
    by (simp add: DaysInPreviousMonth_def)
  moreover have "DateFromDay (MakeDay y (m - 1) (DaysInMonth y (m - 1))) = DaysInMonth y (m - 1)"
    using m1 DaysInMonth_bounds(1) [OF m1, of y] by (intro civil_of_MakeDay(3)) simp_all
  ultimately show ?thesis
    using False by (simp add: DaysInPreviousMonth_def)
qed

lemma map_shift_upto: "map (\<lambda>i. i + c) [a..b] = [a + c..b + c]"
proof (rule nth_equalityI)
  show "length (map (\<lambda>i. i + c) [a..b]) = length [a + c..b + c]"
    by simp
next
  fix k
  assume "k < length (map (\<lambda>i. i + c) [a..b])"
  then have k: "a + int k \<le> b"
    by simp
  then have "a + c + int k \<le> b + c"
    by simp
  then show "map (\<lambda>i. i + c) [a..b] ! k = [a + c..b + c] ! k"
    using k by (simp add: nth_upto)
qed

lemma rev_upto: "rev [a..b] = map (\<lambda>i. a + b - i) [a..b]"
proof (rule nth_equalityI)
  show "length (rev [a..b]) = length (map (\<lambda>i. a + b - i) [a..b])"
    by simp
next
  fix k
  assume "k < length (rev [a..b])"
  then have k: "a + int k \<le> b" and kl: "k < length [a..b]"
    by simp_all
  have "a + int (length [a..b] - Suc k) \<le> b"
    using k by simp
  then have "[a..b] ! (length [a..b] - Suc k) = a + int (length [a..b] - Suc k)"
    by (rule nth_upto)
  also have "\<dots> = b - int k"
    using k by simp
  finally show "rev [a..b] ! k = map (\<lambda>i. a + b - i) [a..b] ! k"
    using k kl by (simp add: rev_nth nth_upto)
qed

lemma grid_as_consecutive_days:
  assumes "0 \<le> w" "w \<le> 6" "28 \<le> n" "n \<le> 31"
  shows "map (\<lambda>i. cell (F - 1 - i) False) (rev [0..w - 1])
           @ map (\<lambda>i. cell (F + i - 1) True) [1..n]
           @ map (\<lambda>i. cell (F + n + i - 1) False) [1..42 - (w + n)]
         = map (\<lambda>i. cell (F - w + i) (w \<le> i \<and> i < w + n)) [0..41]"
proof -
  have split: "[0..41] = [0..w - 1] @ [w..w + n - 1] @ [w + n..41]"
    using assms upto_split1 [of 0 w 41] upto_split1 [of w "w + n" 41] by simp
  have a: "map (\<lambda>i. cell (F - 1 - i) False) (rev [0..w - 1])
      = map (\<lambda>i. cell (F - w + i) (w \<le> i \<and> i < w + n)) [0..w - 1]"
    by (simp add: rev_upto comp_def algebra_simps)
  have "map (\<lambda>i. i + (w - 1)) [1..n] = [1 + (w - 1)..n + (w - 1)]"
    by (rule map_shift_upto)
  moreover have "1 + (w - 1) = w" "n + (w - 1) = w + n - 1"
    by simp_all
  ultimately have "[w..w + n - 1] = map (\<lambda>i. i + (w - 1)) [1..n]"
    by (simp only:)
  then have b: "map (\<lambda>i. cell (F - w + i) (w \<le> i \<and> i < w + n)) [w..w + n - 1]
      = map (\<lambda>i. cell (F + i - 1) True) [1..n]"
    by (simp add: comp_def algebra_simps)
  have "map (\<lambda>i. i + (w + n - 1)) [1..42 - (w + n)]
      = [1 + (w + n - 1)..42 - (w + n) + (w + n - 1)]"
    by (rule map_shift_upto)
  moreover have "1 + (w + n - 1) = w + n" "42 - (w + n) + (w + n - 1) = 41"
    by simp_all
  ultimately have "[w + n..41] = map (\<lambda>i. i + (w + n - 1)) [1..42 - (w + n)]"
    by (simp only:)
  then have c: "map (\<lambda>i. cell (F - w + i) (w \<le> i \<and> i < w + n)) [w + n..41]
      = map (\<lambda>i. cell (F + n + i - 1) False) [1..42 - (w + n)]"
    by (simp add: comp_def algebra_simps)
  show ?thesis
    unfolding split map_append a b c ..
qed

text \<open>
  Where local noon-UTC dates keep their UTC day (offsets from -12 h up to, but not
  including, +12 h) and the displayed year is not one of 0 to 99 (which \<open>Date.UTC\<close>
  reads as 1900 to 1999), the grid is 42 consecutive days: the first of the month
  stands at index \<open>w\<close>, its weekday (0 = Sunday), the cells before it are the last
  \<open>w\<close> days of the previous month, the cells from \<open>w\<close> to \<open>w + n - 1\<close> are the \<open>n\<close> days
  of the month and are the only ones marked \<open>isCurrentMonth\<close>, and the rest are the first
  days of the next month.
\<close>

lemma getDaysInMonth_grid:
  assumes "- (12 * msPerHour) \<le> tz" "tz < 12 * msPerHour"
    and "getFullYear tz dt < 0 \<or> 99 < getFullYear tz dt"
  shows "getDaysInMonth tz dt
       = map (\<lambda>i. cell (MakeDay (getFullYear tz dt) (getMonth tz dt) 1
                          - WeekDay (MakeDay (getFullYear tz dt) (getMonth tz dt) 1) + i)
                   (WeekDay (MakeDay (getFullYear tz dt) (getMonth tz dt) 1) \<le> i
                    \<and> i < WeekDay (MakeDay (getFullYear tz dt) (getMonth tz dt) 1)
                          + DaysInMonth (getFullYear tz dt) (getMonth tz dt)))
           [0..41]"
proof -
  define year month where "year = getFullYear tz dt" and "month = getMonth tz dt"
  define F where "F = MakeDay year month 1"
  define w where "w = WeekDay F"
  define n where "n = DaysInMonth year month"
  define p where "p = DaysInPreviousMonth year month"
  have m: "0 \<le> month" "month < 12"
    by (simp_all add: month_def getMonth_def MonthFromDay_range)
  have w: "0 \<le> w" "w \<le> 6"
    by (simp_all add: w_def WeekDay_def)
  have n: "28 \<le> n" "n \<le> 31"
    using DaysInMonth_bounds [OF m] by (simp_all add: n_def)
  have y: "year < 0 \<or> 99 < year"
    using assms(3) by (simp add: year_def)
  have f1: "Date_UTC year month k 12 = (F + k - 1) * msPerDay + 12 * msPerHour" for k
    using MakeDay_linear [of year month k] by (simp add: Date_UTC_year [OF y] F_def)
  have f2: "Date_UTC year (month + 1) k 12 = (F + n + k - 1) * msPerDay + 12 * msPerHour" for k
    using MakeDay_linear [of year month k] MakeDay_next_month [OF m, of year k]
    by (simp add: Date_UTC_year [OF y] F_def n_def)
  have f3: "Date_UTC year (month - 1) (p - i) 12 = (F - 1 - i) * msPerDay + 12 * msPerHour" for i
    using MakeDay_linear [of year month "p - i"] MakeDay_previous_month [OF m, of year "p - i"]
    by (simp add: Date_UTC_year [OF y] F_def p_def)
  have noon: "Day (k * msPerDay + 12 * msPerHour + tz) = k" for k
    using assms(1,2) by (rule Day_noon)
  have g1: "getDate tz (Date_UTC year (month + 1) 0 12) = n"
    using DateFromDay_last [OF m, of year] noon [of "MakeDay year (month + 1) 0"]
    by (simp add: getDate_def Date_UTC_year [OF y] n_def)
  have g2: "getDay tz (Date_UTC year month 1 12) = w"
    using noon [of F] by (simp add: getDay_def f1 w_def)
  have g3: "getDate tz (Date_UTC year month 0 12) = p"
    using DateFromDay_before_first [OF m, of year] noon [of "MakeDay year month 0"]
    by (simp add: getDate_def Date_UTC_year [OF y] p_def)
  have "getDaysInMonth tz dt
      = map (\<lambda>i. cell (F - 1 - i) False) (rev [0..w - 1])
          @ map (\<lambda>i. cell (F + i - 1) True) [1..n]
          @ map (\<lambda>i. cell (F + n + i - 1) False) [1..42 - (w + n)]"
    unfolding getDaysInMonth_def Let_def year_def [symmetric] month_def [symmetric] g1 g2 g3
    using w n by (simp add: f1 f2 f3 cell_def)
  also have "\<dots> = map (\<lambda>i. cell (F - w + i) (w \<le> i \<and> i < w + n)) [0..41]"
    using w n by (rule grid_as_consecutive_days)
  finally show ?thesis
    by (simp add: F_def w_def n_def year_def month_def)
qed

text \<open>January 2025 in UTC: 42 cells, the first of the month in the 4th of them.\<close>

lemma getDaysInMonth_january_2025_UTC:
  "length (getDaysInMonth 0 1735689600000) = 42
   \<and> map isCurrentMonth (take 4 (getDaysInMonth 0 1735689600000)) = [False, False, False, True]
   \<and> toISODate (day_date (getDaysInMonth 0 1735689600000 ! 3)) = ''2025-01-01''
   \<and> length (filter isCurrentMonth (getDaysInMonth 0 1735689600000)) = 31"
proof -
  have c: "getFullYear 0 1735689600000 = 2025" "getMonth 0 1735689600000 = 0"
    by code_simp+
  have k: "MakeDay 2025 0 1 = 20089" "WeekDay 20089 = 3" "DaysInMonth 2025 0 = 31"
    by (simp_all add: MakeDay_def DayOfMonthStart_def DayFromYear_def WeekDay_def DaysInMonth_def)
  have g: "getDaysInMonth 0 1735689600000
      = map (\<lambda>i. cell (20089 - 3 + i) (3 \<le> i \<and> i < 3 + 31)) [0..41]"
    using getDaysInMonth_grid [of 0 1735689600000] by (simp add: c k msPerHour_def)
  have u: "[0..41] = [0, 1, 2] @ [3..33] @ [34..(41::int)]"
    by (simp add: upto.simps)
  have d: "toISODate (day_date (cell 20089 True)) = ''2025-01-01''"
    by code_simp
  have "filter isCurrentMonth (getDaysInMonth 0 1735689600000)
      = map (\<lambda>i. cell (20089 - 3 + i) True) [3..33]"
    unfolding g u by (simp add: filter_map comp_def cell_def cong: map_cong filter_cong)
  then have "length (filter isCurrentMonth (getDaysInMonth 0 1735689600000)) = 31"
    by simp
  moreover have "map isCurrentMonth (take 4 (getDaysInMonth 0 1735689600000))
      = [False, False, False, True]"
    unfolding g u by (simp add: cell_def upto.simps [of 3 33])
  moreover have "getDaysInMonth 0 1735689600000 ! 3 = cell 20089 True"
    unfolding g u by (simp add: upto.simps [of 3 33])
  ultimately show ?thesis
    by (simp add: g d)
qed

lemma grid_parts_UTC_plus_13:
  "getFullYear 46800000 1735642800000 = 2025"
  "getMonth 46800000 1735642800000 = 0"
  "getDate 46800000 1735642800000 = 1"
  "getDate 46800000 (Date_UTC 2025 1 0 12) = 1"
  "getDay 46800000 (Date_UTC 2025 0 1 12) = 4"
  "getDate 46800000 (Date_UTC 2025 0 0 12) = 1"
  by code_simp+

lemma grid_UTC_plus_13:
  "getDaysInMonth 46800000 1735642800000
     = map (\<lambda>i. \<lparr>day_date = Date_UTC 2025 (- 1) (1 - i) 12, isCurrentMonth = False\<rparr>)
         [3, 2, 1, 0]
       @ [\<lparr>day_date = Date_UTC 2025 0 1 12, isCurrentMonth = True\<rparr>]
       @ map (\<lambda>i. \<lparr>day_date = Date_UTC 2025 1 i 12, isCurrentMonth = False\<rparr>) [1..37]"
proof -
  have r: "rev [0..(3::int)] = [3, 2, 1, 0]" "[1..(1::int)] = [1]"
    by (simp_all add: upto.simps)
  show ?thesis
    by (simp add: getDaysInMonth_def grid_parts_UTC_plus_13 Let_def r)
qed

lemma grid_dates_UTC_plus_13:
  "toISODate (Date_UTC 2025 (- 1) (- 2) 12) = ''2024-11-28''"
  "toISODate (Date_UTC 2025 (- 1) (- 1) 12) = ''2024-11-29''"
  "toISODate (Date_UTC 2025 (- 1) 0 12) = ''2024-11-30''"
  "toISODate (Date_UTC 2025 (- 1) 1 12) = ''2024-12-01''"
  "toISODate (Date_UTC 2025 0 1 12) = ''2025-01-01''"
  "toISODate (Date_UTC 2025 1 1 12) = ''2025-02-01''"
  by code_simp+

text \<open>
  C8. At UTC+13 (46800000 ms; New Zealand in January) the displayed month
  \<^verbatim>\<open>new Date(2025, 0, 1)\<close> is the time value 1735642800000. There
  \<open>lastDay.getDate()\<close>, \<open>firstDay.getDay()\<close> and \<open>previousMonth.getDate()\<close> read the
  local day after the UTC noon they were built for, so the program takes January to
  have 1 day, to start on a Thursday, and December to have 1 day: the grid has
  42 cells, but the first cell of the month is the 5th, not the 4th, and it is the
  only one.
\<close>

theorem getDaysInMonth_january_2025_UTC_plus_13:
  "getFullYear 46800000 1735642800000 = 2025 \<and> getMonth 46800000 1735642800000 = 0
   \<and> getDate 46800000 1735642800000 = 1
   \<and> length (getDaysInMonth 46800000 1735642800000) = 42
   \<and> map (\<lambda>c. (toISODate (day_date c), isCurrentMonth c))
         (take 6 (getDaysInMonth 46800000 1735642800000))
       = [(''2024-11-28'', False), (''2024-11-29'', False), (''2024-11-30'', False),
          (''2024-12-01'', False), (''2025-01-01'', True), (''2025-02-01'', False)]
   \<and> length (filter isCurrentMonth (getDaysInMonth 46800000 1735642800000)) = 1"
proof -
  have u: "[1..(37::int)] = 1 # [2..37]"
    by (simp add: upto.simps)
  have "length (getDaysInMonth 46800000 1735642800000) = 42"
    by (simp add: grid_UTC_plus_13)
  moreover have "map (\<lambda>c. (toISODate (day_date c), isCurrentMonth c))
         (take 6 (getDaysInMonth 46800000 1735642800000))
       = [(''2024-11-28'', False), (''2024-11-29'', False), (''2024-11-30'', False),
          (''2024-12-01'', False), (''2025-01-01'', True), (''2025-02-01'', False)]"
    unfolding grid_UTC_plus_13 u by (simp add: grid_dates_UTC_plus_13)
  moreover have "length (filter isCurrentMonth (getDaysInMonth 46800000 1735642800000)) = 1"
    by (simp add: grid_UTC_plus_13 filter_map comp_def)
  ultimately show ?thesis
    by (simp add: grid_parts_UTC_plus_13)
qed

section \<open>The initial ledger\<close>

text \<open>
  C9. The initializer of \<open>entries\<close> is
  \<^verbatim>\<open>const saved = localStorage.getItem('codingHours2025'); return saved ? JSON.parse(saved) : [];\<close>
  with no \<^verbatim>\<open>try\<close> around it. A missing or empty snapshot gives the empty ledger; a
  snapshot that is not JSON makes \<open>JSON.parse\<close> throw, and the exception leaves the
  initializer: no ledger is produced. A snapshot that is JSON but not an array is
  taken as it is.
\<close>

theorem initialEntries_malformed_throws:
  "initialEntries (Some ''not json'') = Inl SyntaxError
   \<and> initialEntries (Some ''[{'') = Inl SyntaxError
   \<and> initialEntries (Some ''5'') = Inr (JNumber 5)
   \<and> initialEntries (Some ''[]'') = Inr (JArray [])
   \<and> initialEntries (Some []) = Inr (JArray [])
   \<and> initialEntries None = Inr (JArray [])"
  by code_simp

text \<open>A snapshot the program wrote itself is read back as the array of its records.\<close>

lemma initialEntries_snapshot:
  "initialEntries (Some (''[{'' @ [CHR 0x22] @ ''date'' @ [CHR 0x22] @ '':'' @ [CHR 0x22]
       @ ''2025-01-05'' @ [CHR 0x22] @ '','' @ [CHR 0x22] @ ''hours'' @ [CHR 0x22] @ '':5}]''))
     = Inr (JArray [JObject [(''date'', JString ''2025-01-05''), (''hours'', JNumber 5)]])"
  by code_simp

end
